theory Spec2Isabelle
  imports Complex_Main "HOL-Library.Multiset" "HOL-Library.Char_ord" "HOL-Library.List_Lexorder"
begin

unbundle bit_operations_syntax

section \<open>The duplicate detector \<open>dupe_detector.py\<close>\<close>

text \<open>
  A shallow embedding of \<open>tools/dupe_detector.py\<close>. Python's unbounded integers are
  \<open>int\<close>, lengths and indices that cannot be negative are \<open>nat\<close>, a \<open>str\<close> and a
  \<open>Path\<close> are \<open>string\<close>, an insertion-ordered \<open>dict\<close> is an association list with
  distinct keys, and an exception that leaves a function is the \<open>Inl\<close> branch of its
  result. Everything the script gets from outside (the file system, the \<open>fpcalc\<close> process,
  OpenCV, \<open>hashlib\<close>) is a field of the record \<open>world\<close>.
\<close>

subsection \<open>Data model\<close>

type_synonym path = string
type_synonym byte = nat

text \<open>A decoded BGR frame: rows of pixels, each pixel a list of channel values.\<close>
type_synonym frame = "nat list list list"

text \<open>A single-channel \<open>uint8\<close> image: rows of intensities.\<close>
type_synonym gray = "nat list list"

text \<open>\<open>AUDIO_EXTS\<close> and \<open>VIDEO_EXTS\<close> (lines 38-39).\<close>

definition AUDIO_EXTS :: "string set" where
  "AUDIO_EXTS = {''.mp3'', ''.flac'', ''.wav'', ''.m4a'', ''.aac'', ''.ogg'', ''.wma''}"

definition VIDEO_EXTS :: "string set" where
  "VIDEO_EXTS = {''.mp4'', ''.mkv'', ''.avi'', ''.mov'', ''.wmv'', ''.webm'', ''.flv'', ''.m4v''}"

text \<open>The dataclass \<open>FingerprintResult\<close> (lines 42-46); \<open>kind\<close> is a \<open>str\<close> in the source.\<close>

record FingerprintResult =
  kind :: string
  key :: string
  detail :: string

text \<open>
  What \<open>subprocess.run(..., check=True, capture_output=True, text=True)\<close> can do: complete
  with exit status 0 and a standard output (given here as \<open>stdout.splitlines()\<close>), raise
  \<open>CalledProcessError\<close> (non-zero exit status), or raise anything else (the executable
  cannot be started, the output does not decode).
\<close>

datatype proc_result = Completed "string list" | CalledProcessError | ProcRaised

text \<open>The exceptions that leave the functions of the script.\<close>

datatype error = OSError path | SubprocessError path

record world =
  \<comment> \<open>\<open>root.rglob("*")\<close> when the flag is true, \<open>root.iterdir()\<close> otherwise\<close>
  iter_files :: "path \<Rightarrow> bool \<Rightarrow> path list"
  is_file :: "path \<Rightarrow> bool"
  \<comment> \<open>\<open>shutil.which("fpcalc")\<close>\<close>
  which_fpcalc :: "string option"
  \<comment> \<open>\<open>subprocess.run([fpcalc, "-length", str(length), str(path)], ...)\<close>\<close>
  subprocess_run :: "string \<Rightarrow> nat \<Rightarrow> path \<Rightarrow> proc_result"
  \<comment> \<open>\<open>cv2 is not None and np is not None\<close>\<close>
  cv2_imported :: bool
  \<comment> \<open>\<open>cv2.VideoCapture(str(path)).isOpened()\<close>\<close>
  cap_isOpened :: "path \<Rightarrow> bool"
  \<comment> \<open>\<open>int(cap.get(cv2.CAP_PROP_FRAME_COUNT) or 0)\<close>\<close>
  cap_frame_count :: "path \<Rightarrow> int"
  \<comment> \<open>\<open>cap.set(cv2.CAP_PROP_POS_FRAMES, float(idx)); cap.read()\<close>: the frame, or \<open>None\<close>
      when \<open>not ok or frame is None\<close>\<close>
  cap_read :: "path \<Rightarrow> int \<Rightarrow> frame option"
  \<comment> \<open>\<open>cv2.cvtColor(frame, cv2.COLOR_BGR2GRAY)\<close>\<close>
  cvtColor :: "frame \<Rightarrow> gray"
  \<comment> \<open>\<open>cv2.resize(gray, (width, height), interpolation=cv2.INTER_AREA)\<close>\<close>
  resize :: "gray \<Rightarrow> nat \<Rightarrow> nat \<Rightarrow> gray"
  \<comment> \<open>the bytes \<open>path.open("rb")\<close> reads, \<open>None\<close> when opening or reading raises\<close>
  read_bytes :: "path \<Rightarrow> byte list option"
  \<comment> \<open>\<open>hashlib.sha256(data).hexdigest()\<close>\<close>
  sha256_hexdigest :: "byte list \<Rightarrow> string"

subsection \<open>Library functions the script calls\<close>

text \<open>
  Models of the pieces of Python's standard library the script uses on strings, on ASCII
  text: \<open>str.lower\<close>, \<open>str.startswith\<close>, \<open>str.strip\<close>, \<open>str.split\<close>, \<open>str.join\<close>,
  \<open>PurePath.suffix\<close> and the formatting of integers in f-strings.
\<close>

definition char_lower :: "char \<Rightarrow> char" where
  "char_lower c =
     (if CHR ''A'' \<le> c \<and> c \<le> CHR ''Z'' then char_of (of_char c + (32::nat)) else c)"

definition str_lower :: "string \<Rightarrow> string" where
  "str_lower s = map char_lower s"

definition startswith :: "string \<Rightarrow> string \<Rightarrow> bool" where
  "startswith s pre = (take (length pre) s = pre)"

definition is_space :: "char \<Rightarrow> bool" where
  "is_space c = (c \<in> {CHR '' '', CHR 0x09, CHR 0x0A, CHR 0x0B, CHR 0x0C, CHR 0x0D})"

definition strip :: "string \<Rightarrow> string" where
  "strip s = rev (dropWhile is_space (rev (dropWhile is_space s)))"

text \<open>\<open>s.split(sep)\<close> for a separator of one character.\<close>

fun split_char :: "char \<Rightarrow> string \<Rightarrow> string list" where
  "split_char sep [] = [[]]"
| "split_char sep (c # cs) =
     (let r = split_char sep cs
      in if c = sep then [] # r else (c # hd r) # tl r)"

text \<open>\<open>sep.join(lines)\<close>.\<close>

fun join :: "string \<Rightarrow> string list \<Rightarrow> string" where
  "join sep [] = []"
| "join sep [l] = l"
| "join sep (l # ls) = l @ sep @ join sep ls"

text \<open>
  \<open>PurePath.suffix\<close>: the part of the final path component from its last dot on, empty
  when there is no dot, when the dot is the component's first character or its last one.
  Paths are POSIX paths that do not end in a separator, as the traversal yields them.
\<close>

definition path_name :: "path \<Rightarrow> string" where
  "path_name p = rev (takeWhile (\<lambda>c. c \<noteq> CHR ''/'') (rev p))"

definition suffix :: "path \<Rightarrow> string" where
  "suffix p =
     (let name = path_name p;
          after = length (takeWhile (\<lambda>c. c \<noteq> CHR ''.'') (rev name))
      in if CHR ''.'' \<in> set name \<and> 0 < after \<and> Suc after < length name
         then drop (length name - Suc after) name else [])"

definition digit_char :: "nat \<Rightarrow> char" where
  "digit_char d = ''0123456789abcdef'' ! d"

text \<open>The digits of a natural number in a base between 2 and 16, most significant first.\<close>

fun digits :: "nat \<Rightarrow> nat \<Rightarrow> string" where
  "digits b n =
     (if b < 2 \<or> n < b then [digit_char n] else digits b (n div b) @ [digit_char (n mod b)])"

declare digits.simps [simp del]

text \<open>\<open>str(n)\<close> and \<open>f"{n}"\<close> for a length \<open>n\<close>.\<close>

definition str_nat :: "nat \<Rightarrow> string" where
  "str_nat n = digits 10 n"

text \<open>\<open>f"{v:016x}"\<close>: lowercase hexadecimal, zero-padded (after the sign) to 16 characters.\<close>

definition zero_pad :: "nat \<Rightarrow> string \<Rightarrow> string" where
  "zero_pad width s = replicate (width - length s) CHR ''0'' @ s"

definition format_016x :: "int \<Rightarrow> string" where
  "format_016x v =
     (if v < 0 then CHR ''-'' # zero_pad 15 (digits 16 (nat (- v)))
      else zero_pad 16 (digits 16 (nat v)))"

subsection \<open>File finder (lines 49-64)\<close>

definition normalize_ext :: "string \<Rightarrow> string" where
  "normalize_ext ext = (if startswith ext ''.'' then str_lower ext else ''.'' @ str_lower ext)"

definition allowed_exts_of :: "string list \<Rightarrow> string list \<Rightarrow> string set" where
  "allowed_exts_of kinds custom_exts =
     (if ''audio'' \<in> set kinds then AUDIO_EXTS else {}) \<union>
     (if ''video'' \<in> set kinds then VIDEO_EXTS else {}) \<union>
     set (map normalize_ext custom_exts)"

definition find_files :: "world \<Rightarrow> path \<Rightarrow> bool \<Rightarrow> string list \<Rightarrow> string list \<Rightarrow> path list" where
  "find_files w root_dir recurse kinds custom_exts =
     (let allowed_exts = allowed_exts_of kinds custom_exts
      in filter (\<lambda>p. is_file w p \<and> (allowed_exts = {} \<or> str_lower (suffix p) \<in> allowed_exts))
           (iter_files w root_dir recurse))"

subsection \<open>Audio fingerprint (lines 67-84)\<close>

text \<open>The loop over the lines of the standard output; \<open>line.split("=", 1)[1].strip()\<close>.\<close>

fun first_fingerprint :: "string list \<Rightarrow> string option" where
  "first_fingerprint [] = None"
| "first_fingerprint (line # rest) =
     (if startswith line ''FINGERPRINT=''
      then Some (strip (drop 1 (dropWhile (\<lambda>c. c \<noteq> CHR ''='') line)))
      else first_fingerprint rest)"

definition run_fpcalc :: "world \<Rightarrow> path \<Rightarrow> nat \<Rightarrow> error + string option" where
  "run_fpcalc w p len =
     (case which_fpcalc w of
        None \<Rightarrow> Inr None
      | Some fpcalc \<Rightarrow>
          if fpcalc = [] then Inr None
          else (case subprocess_run w fpcalc len p of
                  CalledProcessError \<Rightarrow> Inr None
                | ProcRaised \<Rightarrow> Inl (SubprocessError p)
                | Completed lines \<Rightarrow> Inr (first_fingerprint lines)))"

subsection \<open>Exact-content hash (lines 87-94)\<close>

text \<open>
  The hash object is the message fed to it so far. The loop reads chunks of
  \<open>1024 * 1024\<close> bytes until \<open>read\<close> returns the empty bytes object.
\<close>

function sha256_update_loop :: "byte list \<Rightarrow> byte list \<Rightarrow> byte list" where
  "sha256_update_loop h remaining =
     (let chunk = take (1024 * 1024) remaining
      in if chunk = [] then h
         else sha256_update_loop (h @ chunk) (drop (1024 * 1024) remaining))"
  by pat_completeness auto
termination
  by (relation "measure (\<lambda>(h, remaining). length remaining)") auto

declare sha256_update_loop.simps [simp del]

definition sha256_file :: "world \<Rightarrow> path \<Rightarrow> error + string" where
  "sha256_file w p =
     (case read_bytes w p of
        None \<Rightarrow> Inl (OSError p)
      | Some content \<Rightarrow> Inr (sha256_hexdigest w (sha256_update_loop [] content)))"

subsection \<open>Perceptual frame hasher (lines 97-105)\<close>

text \<open>The loop \<open>value = (value << 1) | int(bool(bit))\<close> over a list of booleans.\<close>

definition pack_bits :: "bool list \<Rightarrow> int" where
  "pack_bits bits = fold (\<lambda>bit val. push_bit 1 val OR of_bool bit) bits 0"

text \<open>
  \<open>resized[:, 1:] > resized[:, :-1]\<close>: in every row, the columns from the second on
  compared elementwise with the columns up to the last but one.
\<close>

definition row_diff :: "nat list \<Rightarrow> bool list" where
  "row_diff row = map2 (\<lambda>a b. a > b) (tl row) (butlast row)"

definition frame_ahash :: "world \<Rightarrow> frame \<Rightarrow> nat \<Rightarrow> int" where
  "frame_ahash w fr hash_size =
     (let gray = cvtColor w fr;
          resized = resize w gray (hash_size + 1) hash_size;
          diff = map row_diff resized;
          bits = concat diff
      in pack_bits bits)"

subsection \<open>Hash combiner (lines 108-120)\<close>

text \<open>
  The inner loop \<open>for i in range(hash_bits)\<close> for one hash \<open>h\<close>. The width is a
  \<open>nat\<close>: for a negative \<open>hash_bits\<close> both \<open>[0] * hash_bits\<close> and \<open>range(hash_bits)\<close> are
  empty, as they are for 0.
\<close>

definition count_hash :: "nat \<Rightarrow> int \<Rightarrow> nat list \<Rightarrow> nat list" where
  "count_hash hash_bits h counts =
     fold (\<lambda>i cs. if h AND push_bit (hash_bits - 1 - i) 1 \<noteq> 0 then cs[i := cs ! i + 1] else cs)
       [0..<hash_bits] counts"

text \<open>
  \<open>threshold = len(hashes) / 2\<close> is Python's true division: a float that is exactly half
  the length for every length a list can have (below \<open>2 ^ 53\<close>). Python compares the
  integer count with it by value, which is the comparison of rationals below.
\<close>

definition combine_hashes_hash_majority :: "int list \<Rightarrow> nat \<Rightarrow> int" where
  "combine_hashes_hash_majority hashes hash_bits =
     (if hashes = [] then 0
      else
        let counts = fold (count_hash hash_bits) hashes (replicate hash_bits 0);
            threshold = (of_nat (length hashes) :: rat) / 2
        in fold (\<lambda>c combined. push_bit 1 combined OR of_bool (of_nat c \<ge> threshold)) counts 0)"

subsection \<open>Video perceptual hash (lines 123-144)\<close>

text \<open>Lines 130-133: the frame indices to sample.\<close>

definition sample_indices :: "int \<Rightarrow> int \<Rightarrow> int list" where
  "sample_indices frame_count sample_frames =
     (if frame_count > 0 \<and> sample_frames > 0
      then (let step = max 1 (frame_count div sample_frames)
            in map (\<lambda>i. i * step) [0..sample_frames - 1])
      else [])"

text \<open>Lines 134-140: the hashes of the frames that decode; the others are skipped.\<close>

fun frame_hashes :: "world \<Rightarrow> path \<Rightarrow> int list \<Rightarrow> int list" where
  "frame_hashes w p [] = []"
| "frame_hashes w p (idx # indices) =
     (case cap_read w p idx of
        None \<Rightarrow> frame_hashes w p indices
      | Some fr \<Rightarrow> frame_ahash w fr 8 # frame_hashes w p indices)"

definition video_perceptual_hash :: "world \<Rightarrow> path \<Rightarrow> int \<Rightarrow> int option" where
  "video_perceptual_hash w p sample_frames =
     (if \<not> cv2_imported w then None
      else if \<not> cap_isOpened w p then None
      else
        let frame_count = cap_frame_count w p;
            indices = sample_indices frame_count sample_frames;
            hashes = frame_hashes w p indices
        in if hashes = [] then None else Some (combine_hashes_hash_majority hashes 64))"

subsection \<open>Fingerprint strategy dispatcher (lines 147-162)\<close>

text \<open>Lines 160-162.\<close>

definition fallback_fingerprint :: "world \<Rightarrow> path \<Rightarrow> error + FingerprintResult" where
  "fallback_fingerprint w p =
     (case sha256_file w p of
        Inl e \<Rightarrow> Inl e
      | Inr fallback \<Rightarrow>
          Inr \<lparr>kind = ''fallback'', key = fallback,
               detail = ''sha256:'' @ take 12 fallback @ ''...''\<rparr>)"

text \<open>Lines 156-162.\<close>

definition video_fingerprint :: "world \<Rightarrow> path \<Rightarrow> bool \<Rightarrow> int \<Rightarrow> error + FingerprintResult" where
  "video_fingerprint w p is_video sample_frames =
     (if is_video
      then (case video_perceptual_hash w p sample_frames of
              Some vhash \<Rightarrow>
                Inr \<lparr>kind = ''video'', key = ''vhash:'' @ format_016x vhash,
                     detail = ''vhash:'' @ format_016x vhash\<rparr>
            | None \<Rightarrow> fallback_fingerprint w p)
      else fallback_fingerprint w p)"

definition fingerprint_file :: "world \<Rightarrow> path \<Rightarrow> string list \<Rightarrow> int \<Rightarrow> error + FingerprintResult" where
  "fingerprint_file w p kinds sample_frames =
     (let ext = str_lower (suffix p);
          is_audio = (ext \<in> AUDIO_EXTS \<and> ''audio'' \<in> set kinds);
          is_video = (ext \<in> VIDEO_EXTS \<and> ''video'' \<in> set kinds)
      in if is_audio
         then (case run_fpcalc w p 120 of
                 Inl e \<Rightarrow> Inl e
               | Inr None \<Rightarrow> video_fingerprint w p is_video sample_frames
               | Inr (Some fp) \<Rightarrow>
                   if fp \<noteq> []
                   then Inr \<lparr>kind = ''audio'', key = fp,
                             detail = ''fpcalc:'' @ str_nat (length fp) @ ''chars''\<rparr>
                   else video_fingerprint w p is_video sample_frames)
         else video_fingerprint w p is_video sample_frames)"

subsection \<open>Duplicate grouping (lines 165-171)\<close>

text \<open>
  A \<open>dict\<close> keeps its keys in the order of their first insertion: an association list
  with distinct keys. \<open>groups[k].append(v)\<close> on a \<open>defaultdict(list)\<close>:
\<close>

type_synonym groups = "(string \<times> (path \<times> FingerprintResult) list) list"

fun dict_append :: "('k \<times> 'v list) list \<Rightarrow> 'k \<Rightarrow> 'v \<Rightarrow> ('k \<times> 'v list) list" where
  "dict_append [] k v = [(k, [v])]"
| "dict_append ((k', vs) # d) k v =
     (if k' = k then (k', vs @ [v]) # d else (k', vs) # dict_append d k v)"

text \<open>The loop of lines 167-169; an exception of \<open>fingerprint_file\<close> leaves it.\<close>

fun fingerprint_loop :: "world \<Rightarrow> string list \<Rightarrow> int \<Rightarrow> groups \<Rightarrow> path list \<Rightarrow> error + groups" where
  "fingerprint_loop w kinds sample_frames groups [] = Inr groups"
| "fingerprint_loop w kinds sample_frames groups (p # files) =
     (case fingerprint_file w p kinds sample_frames of
        Inl e \<Rightarrow> Inl e
      | Inr fp \<Rightarrow> fingerprint_loop w kinds sample_frames (dict_append groups (key fp) (p, fp)) files)"

definition find_duplicates :: "world \<Rightarrow> path list \<Rightarrow> string list \<Rightarrow> int \<Rightarrow> error + groups" where
  "find_duplicates w files kinds sample_frames =
     (case fingerprint_loop w kinds sample_frames [] files of
        Inl e \<Rightarrow> Inl e
      | Inr groups \<Rightarrow> Inr (filter (\<lambda>(k, v). length v > 1) groups))"

subsection \<open>Report (lines 174-180) and \<open>main\<close> (lines 183-229)\<close>

text \<open>Python's \<open>sorted\<close> is stable, as \<open>sort_key\<close> is.\<close>

definition item_line :: "path \<times> FingerprintResult \<Rightarrow> string" where
  "item_line x = (case x of (p, fp) \<Rightarrow> ''  - '' @ p @ '' ['' @ kind fp @ '' '' @ detail fp @ '']'')"

definition group_lines :: "string \<times> (path \<times> FingerprintResult) list \<Rightarrow> string list" where
  "group_lines kv =
     (case kv of (k, items) \<Rightarrow>
        (''hash='' @ k @ '' (x'' @ str_nat (length items) @ '')'')
        # map item_line (sort_key (\<lambda>x. fst x) items))"

definition format_report :: "groups \<Rightarrow> string" where
  "format_report dupes =
     (let lines = concat (map group_lines (sort_key (\<lambda>kv. fst kv) dupes))
      in join [CHR 0x0A] lines)"

text \<open>The document of lines 205-222, before \<open>json.dumps\<close> writes it out.\<close>

datatype json_item = JsonItem (item_path: string) (item_kind: string) (item_detail: string)

datatype json_group = JsonGroup (group_hash: string) (group_items: "json_item list")

record payload =
  payload_root :: string
  payload_recurse :: bool
  payload_duplicates :: "json_group list"

definition json_duplicates :: "groups \<Rightarrow> json_group list" where
  "json_duplicates dupes =
     map (\<lambda>(k, items). JsonGroup k (map (\<lambda>(p, fp). JsonItem p (kind fp) (detail fp)) items)) dupes"

text \<open>The parsed command line, and what \<open>main\<close> prints.\<close>

record args =
  arg_root :: path
  arg_no_recurse :: bool
  arg_kinds :: string
  arg_custom_exts :: string
  arg_sample_frames :: int
  arg_json :: bool

datatype printed =
    ParserError
  | NoMatchingFiles
  | NoDuplicates
  | TextReport string
  | JsonReport payload

definition split_list :: "string \<Rightarrow> string list" where
  "split_list s = filter (\<lambda>e. e \<noteq> []) (map strip (split_char CHR '','' s))"

definition main :: "world \<Rightarrow> args \<Rightarrow> error + printed" where
  "main w a =
     (if \<not> cv2_imported w then Inr ParserError
      else
        let kinds = map str_lower (split_list (arg_kinds a));
            custom_exts = split_list (arg_custom_exts a);
            files = find_files w (arg_root a) (\<not> arg_no_recurse a) kinds custom_exts
        in if files = [] then Inr NoMatchingFiles
           else (case find_duplicates w files kinds (arg_sample_frames a) of
                   Inl e \<Rightarrow> Inl e
                 | Inr dupes \<Rightarrow>
                     if arg_json a
                     then Inr (JsonReport \<lparr>payload_root = arg_root a,
                                           payload_recurse = (\<not> arg_no_recurse a),
                                           payload_duplicates = json_duplicates dupes\<rparr>)
                     else if dupes \<noteq> [] then Inr (TextReport (format_report dupes))
                     else Inr NoDuplicates))"

subsection \<open>Notions used to state the properties\<close>

text \<open>The grouping key of a file: the key of its fingerprint, when it has one.\<close>

definition file_key :: "world \<Rightarrow> string list \<Rightarrow> int \<Rightarrow> path \<Rightarrow> string option" where
  "file_key w kinds sample_frames p =
     (case fingerprint_file w p kinds sample_frames of Inl e \<Rightarrow> None | Inr fp \<Rightarrow> Some (key fp))"

text \<open>The files of a list that have a fingerprint, each with its fingerprint.\<close>

definition fingerprinted ::
  "world \<Rightarrow> string list \<Rightarrow> int \<Rightarrow> path list \<Rightarrow> (path \<times> FingerprintResult) list" where
  "fingerprinted w kinds sample_frames files =
     List.map_filter
       (\<lambda>p. case fingerprint_file w p kinds sample_frames of Inl e \<Rightarrow> None | Inr fp \<Rightarrow> Some (p, fp))
       files"

text \<open>A group with its entries sorted by path, as \<open>format_report\<close> prints it.\<close>

definition sorted_group ::
  "string \<times> (path \<times> FingerprintResult) list \<Rightarrow> string \<times> (path \<times> FingerprintResult) list" where
  "sorted_group kv = (fst kv, sort_key (\<lambda>x. fst x) (snd kv))"

subsection \<open>An example world\<close>

text \<open>
  A frame of two rows and three columns whose intensity falls from left to right, every
  pixel gray (equal channels).
\<close>

definition gradient_frame :: frame where
  "gradient_frame = [[[9, 9, 9], [5, 5, 5], [1, 1, 1]], [[9, 9, 9], [5, 5, 5], [1, 1, 1]]]"

text \<open>
  A directory \<open>/m\<close> with an audio file that \<open>fpcalc\<close> fingerprints, a video file that
  opens and reports no frames, two files holding the byte \<open>a\<close>, two empty files, a file
  that cannot be read and a subdirectory. The gray value of a gray pixel is its channel
  value, and resizing an image to the size it has returns it. The digest is SHA-256 on the
  two messages the examples hash (the empty message and the byte \<open>a\<close>).
\<close>

definition demo_world :: world where
  "demo_world =
     \<lparr>iter_files = (\<lambda>d recurse.
        if d = ''/m''
        then [''/m/a.mp3'', ''/m/b.bin'', ''/m/c.bin'', ''/m/d.mp4'',
              ''/m/e.bin'', ''/m/f.bin'', ''/m/gone.dat'', ''/m/sub'']
        else []),
      is_file = (\<lambda>p. p \<noteq> ''/m/sub''),
      which_fpcalc = Some ''/usr/bin/fpcalc'',
      subprocess_run = (\<lambda>exe len p.
        if p = ''/m/a.mp3'' then Completed [''DURATION=3'', ''FINGERPRINT=AQAAfp'']
        else CalledProcessError),
      cv2_imported = True,
      cap_isOpened = (\<lambda>p. p = ''/m/d.mp4''),
      cap_frame_count = (\<lambda>p. 0),
      cap_read = (\<lambda>p idx. None),
      cvtColor = map (map hd),
      resize = (\<lambda>g width height. g),
      read_bytes = (\<lambda>p.
        if p = ''/m/gone.dat'' then None
        else if p = ''/m/e.bin'' \<or> p = ''/m/f.bin'' then Some []
        else Some [97]),
      sha256_hexdigest = (\<lambda>msg.
        if msg = [] then ''e3b0c44298fc1c149afbf4c8996fb92427ae41e4649b934ca495991b7852b855''
        else if msg = [97] then ''ca978112ca1bbdcafac231b39a23dc4da786eff8147c4e72b9807785afee48bb''
        else [])\<rparr>"

text \<open>The same directory, traversed in the opposite order.\<close>

definition demo_world_rev :: world where
  "demo_world_rev = demo_world\<lparr>iter_files := (\<lambda>d recurse. rev (iter_files demo_world d recurse))\<rparr>"

text \<open>The command line \<open>/m --custom-exts bin\<close>, with and without \<open>--json\<close>.\<close>

definition demo_args :: "bool \<Rightarrow> args" where
  "demo_args as_json =
     \<lparr>arg_root = ''/m'', arg_no_recurse = False, arg_kinds = ''audio,video'',
      arg_custom_exts = ''bin'', arg_sample_frames = 12, arg_json = as_json\<rparr>"

section \<open>Properties\<close>

subsection \<open>Packing bits, most significant first\<close>

lemma bit_pack_fold:
  "bit (fold (\<lambda>b v. push_bit 1 v OR of_bool (g b)) xs (0::int)) k \<longleftrightarrow>
     k < length xs \<and> g (xs ! (length xs - 1 - k))"
proof (induction xs arbitrary: k rule: rev_induct)
  case Nil
  then show ?case by simp
next
  case (snoc x xs)
  let ?v = "fold (\<lambda>b v. push_bit 1 v OR of_bool (g b)) xs (0::int)"
  have step: "fold (\<lambda>b v. push_bit 1 v OR of_bool (g b)) (xs @ [x]) (0::int)
              = push_bit 1 ?v OR of_bool (g x)"
    by simp
  have "bit (push_bit 1 ?v OR of_bool (g x)) k \<longleftrightarrow> (if k = 0 then g x else bit ?v (k - 1))"
    unfolding bit_or_iff bit_push_bit_iff bit_of_bool_iff by (cases k) auto
  then show ?case
    unfolding step using snoc.IH [of "k - 1"]
    by (cases k) (auto simp add: nth_append)
qed

lemma pack_fold_nonneg:
  "0 \<le> fold (\<lambda>b v. push_bit 1 v OR of_bool (g b)) xs (0::int)"
  by (induction xs rule: rev_induct) simp_all

lemma pack_fold_bound:
  "fold (\<lambda>b v. push_bit 1 v OR of_bool (g b)) xs (0::int) < 2 ^ length xs"
proof -
  let ?v = "fold (\<lambda>b v. push_bit 1 v OR of_bool (g b)) xs (0::int)"
  have "take_bit (length xs) ?v = ?v"
    by (rule bit_eqI) (simp only: bit_take_bit_iff bit_pack_fold, blast)
  then show ?thesis
    by (metis take_bit_int_less_exp)
qed

lemma bit_pack_bits:
  "bit (pack_bits bits) k \<longleftrightarrow> k < length bits \<and> bits ! (length bits - 1 - k)"
  unfolding pack_bits_def using bit_pack_fold [of "\<lambda>b. b" bits k] by simp

lemma pack_bits_range: "0 \<le> pack_bits bits \<and> pack_bits bits < 2 ^ length bits"
  unfolding pack_bits_def
  using pack_fold_nonneg [of "\<lambda>b. b" bits] pack_fold_bound [of "\<lambda>b. b" bits] by simp

subsection \<open>The hash combiner\<close>

lemma count_hash_nth:
  fixes counts :: "nat list"
  assumes "length counts = n"
  shows "m \<le> n \<Longrightarrow>
     fold (\<lambda>i cs. if h AND push_bit (n - 1 - i) 1 \<noteq> 0 then cs[i := cs ! i + 1] else cs)
       [0..<m] counts
     = map (\<lambda>i. if i < m then counts ! i + of_bool (bit h (n - 1 - i)) else counts ! i) [0..<n]"
proof (induction m)
  case 0
  show ?case using assms by (simp add: list_eq_iff_nth_eq)
next
  case (Suc m)
  then show ?case
    using assms
    by (auto simp add: list_eq_iff_nth_eq nth_list_update bit_iff_and_push_bit_not_eq_0 less_Suc_eq)
qed

lemma count_hash_eq:
  "length (counts :: nat list) = n \<Longrightarrow>
   count_hash n h counts = map (\<lambda>i. counts ! i + of_bool (bit h (n - 1 - i))) [0..<n]"
  unfolding count_hash_def using count_hash_nth [of counts n n h]
  by (simp cong: map_cong)

lemma fold_count_hash:
  "length (counts :: nat list) = n \<Longrightarrow>
   fold (count_hash n) hashes counts =
     map (\<lambda>i. counts ! i + length (filter (\<lambda>h. bit h (n - 1 - i)) hashes)) [0..<n]"
proof (induction hashes arbitrary: counts)
  case Nil
  then show ?case by (simp add: list_eq_iff_nth_eq)
next
  case (Cons h hashes)
  have len: "length (count_hash n h counts) = n"
    using Cons.prems by (simp add: count_hash_eq)
  show ?case
    using Cons.IH [OF len] Cons.prems
    by (simp add: count_hash_eq)
qed

lemma threshold_iff: "((of_nat n :: rat) / 2 \<le> of_nat c) \<longleftrightarrow> n \<le> 2 * c"
proof -
  have "((of_nat n :: rat) / 2 \<le> of_nat c) \<longleftrightarrow> (of_nat n :: rat) \<le> of_nat (2 * c)"
    by (simp add: field_simps)
  also have "\<dots> \<longleftrightarrow> n \<le> 2 * c"
    by (rule of_nat_le_iff)
  finally show ?thesis .
qed

lemma combine_as_fold:
  assumes "hashes \<noteq> []"
  shows "combine_hashes_hash_majority hashes hash_bits =
         fold (\<lambda>c v. push_bit 1 v OR of_bool ((of_nat (length hashes) :: rat) / 2 \<le> of_nat c))
           (map (\<lambda>j. length (filter (\<lambda>h. bit h (hash_bits - 1 - j)) hashes)) [0..<hash_bits]) 0"
proof -
  let ?counts = "fold (count_hash hash_bits) hashes (replicate hash_bits 0)"
  have counts: "?counts =
      map (\<lambda>j. length (filter (\<lambda>h. bit h (hash_bits - 1 - j)) hashes)) [0..<hash_bits]"
    by (subst fold_count_hash [of _ hash_bits]) simp_all
  have "combine_hashes_hash_majority hashes hash_bits =
        fold (\<lambda>c v. push_bit 1 v OR of_bool ((of_nat (length hashes) :: rat) / 2 \<le> of_nat c))
          ?counts 0"
    using assms unfolding combine_hashes_hash_majority_def Let_def by (simp only: if_False)
  then show ?thesis
    unfolding counts .
qed

lemma bit_combine:
  assumes "hashes \<noteq> []" "i < hash_bits"
  shows "bit (combine_hashes_hash_majority hashes hash_bits) i \<longleftrightarrow>
         (of_nat (length hashes) :: rat) / 2 \<le> of_nat (length (filter (\<lambda>h. bit h i) hashes))"
  unfolding combine_as_fold [OF assms(1)] bit_pack_fold using assms(2) by simp

lemma combine_range:
  "0 \<le> combine_hashes_hash_majority hashes hash_bits \<and>
   combine_hashes_hash_majority hashes hash_bits < 2 ^ hash_bits"
proof (cases "hashes = []")
  case True
  then show ?thesis by (simp add: combine_hashes_hash_majority_def)
next
  case False
  let ?cs = "map (\<lambda>j. length (filter (\<lambda>h. bit h (hash_bits - 1 - j)) hashes)) [0..<hash_bits]"
  let ?g = "\<lambda>c. (of_nat (length hashes) :: rat) / 2 \<le> of_nat c"
  have "length ?cs = hash_bits" by simp
  then show ?thesis
    unfolding combine_as_fold [OF False]
    using pack_fold_nonneg [of ?g ?cs] pack_fold_bound [of ?g ?cs] by simp
qed

text \<open>
  C7. Combining an empty sequence of frame hashes returns the hash value 0, a defined
  result: the function is total and its value on the empty list is 0, whatever the width.
\<close>

theorem combine_empty: "combine_hashes_hash_majority [] hash_bits = 0"
  by (simp add: combine_hashes_hash_majority_def)

text \<open>
  C4. For a non-empty list of frame hashes and a bit position \<open>i\<close> below the width, bit
  \<open>i\<close> of the combined hash is set exactly when the number of inputs with bit \<open>i\<close> set is
  at least half the number of inputs, and the combined hash has no bit at or above the
  width. In particular, two inputs that disagree on bit \<open>i\<close> give a set bit, and three
  inputs of which exactly one has bit \<open>i\<close> set give a clear bit.
\<close>

theorem combine_majority_vote:
  assumes "hashes \<noteq> []" and "i < hash_bits"
  shows "(bit (combine_hashes_hash_majority hashes hash_bits) i \<longleftrightarrow>
            (of_nat (length hashes) :: rat) / 2 \<le> of_nat (length (filter (\<lambda>h. bit h i) hashes)))
       \<and> 0 \<le> combine_hashes_hash_majority hashes hash_bits
       \<and> combine_hashes_hash_majority hashes hash_bits < 2 ^ hash_bits
       \<and> (\<forall>a b. hashes = [a, b] \<and> bit a i \<noteq> bit b i \<longrightarrow>
             bit (combine_hashes_hash_majority hashes hash_bits) i)
       \<and> (\<forall>a b c. hashes = [a, b, c] \<and> length (filter (\<lambda>h. bit h i) hashes) = 1 \<longrightarrow>
             \<not> bit (combine_hashes_hash_majority hashes hash_bits) i)"
proof -
  have main: "bit (combine_hashes_hash_majority hashes hash_bits) i \<longleftrightarrow>
      (of_nat (length hashes) :: rat) / 2 \<le> of_nat (length (filter (\<lambda>h. bit h i) hashes))"
    by (rule bit_combine [OF assms])
  have two: "bit (combine_hashes_hash_majority hashes hash_bits) i"
    if "hashes = [a, b] \<and> bit a i \<noteq> bit b i" for a b
    using that unfolding main threshold_iff by auto
  have three: "\<not> bit (combine_hashes_hash_majority hashes hash_bits) i"
    if "hashes = [a, b, c] \<and> length (filter (\<lambda>h. bit h i) hashes) = 1" for a b c
  proof -
    have "\<not> length hashes \<le> 2 * length (filter (\<lambda>h. bit h i) hashes)"
      using that by (auto split: if_splits)
    then show ?thesis
      unfolding main threshold_iff .
  qed
  show ?thesis
    using main combine_range [of hashes hash_bits] two three by blast
qed

theorem combine_majority_vote_witness:
  "bit (combine_hashes_hash_majority [5, 6] 4) 1 \<and> \<not> bit (combine_hashes_hash_majority [1, 2, 4] 4) 1
   \<and> bit (combine_hashes_hash_majority [5, 6] 4) 2 \<and> \<not> bit (combine_hashes_hash_majority [5, 6] 4) 3"
proof -
  have ne2: "[5, 6 :: int] \<noteq> []" and ne3: "[1, 2, 4 :: int] \<noteq> []" by simp_all
  have i1: "(1::nat) < 4" and i2: "(2::nat) < 4" and i3: "(3::nat) < 4" by simp_all
  have b5: "\<not> bit (5::int) 1" and b6: "bit (6::int) 1" by simp_all
  have b1: "\<not> bit (1::int) 1" and b2: "bit (2::int) 1" and b4: "\<not> bit (4::int) 1" by simp_all
  have c5: "bit (5::int) 2" and c6: "bit (6::int) 2" by simp_all
  have d5: "\<not> bit (5::int) 3" and d6: "\<not> bit (6::int) 3" by simp_all
  show ?thesis
    using combine_majority_vote [OF ne2 i1] combine_majority_vote [OF ne3 i1]
      combine_majority_vote [OF ne2 i2] combine_majority_vote [OF ne2 i3]
    by (simp add: b5 b6 b1 b2 b4 c5 c6 d5 d6)
qed

subsection \<open>The perceptual frame hasher\<close>

lemma length_row_diff: "length (row_diff row) = length row - 1"
  by (simp add: row_diff_def)

lemma nth_row_diff:
  "Suc c < length row \<Longrightarrow> row_diff row ! c = (row ! Suc c > row ! c)"
  by (simp add: row_diff_def nth_tl nth_butlast)

lemma length_concat_uniform:
  "\<forall>xs \<in> set xss. length xs = n \<Longrightarrow> length (concat xss) = length xss * n"
  by (induction xss) simp_all

lemma nth_concat_uniform:
  "\<forall>xs \<in> set xss. length xs = n \<Longrightarrow> r < length xss \<Longrightarrow> c < n \<Longrightarrow>
   concat xss ! (r * n + c) = xss ! r ! c"
proof (induction xss arbitrary: r)
  case Nil
  then show ?case by simp
next
  case (Cons xs xss)
  show ?case
  proof (cases r)
    case 0
    then show ?thesis using Cons.prems by (simp add: nth_append)
  next
    case (Suc r')
    have "concat (xs # xss) ! (r * n + c) = concat xss ! (r' * n + c)"
      using Cons.prems Suc by (simp add: nth_append)
    also have "\<dots> = xss ! r' ! c"
      using Cons.IH [of r'] Cons.prems Suc by simp
    finally show ?thesis using Suc by simp
  qed
qed

lemma frame_ahash_eq:
  "frame_ahash w fr hash_size =
     pack_bits (concat (map row_diff (resize w (cvtColor w fr) (hash_size + 1) hash_size)))"
  by (simp add: frame_ahash_def)

text \<open>
  C1 (as the code has it). When the resized image has \<open>hash_size\<close> rows of
  \<open>hash_size + 1\<close> pixels, the hash has \<open>hash_size * hash_size\<close> bits, packed row-major
  and most significant first, and the bit of row \<open>r\<close> and pixel pair \<open>c\<close> is 1 exactly
  when the right pixel of the pair is strictly brighter than the left one.
\<close>

theorem frame_ahash_bits:
  assumes "resized = resize w (cvtColor w fr) (hash_size + 1) hash_size"
    and "length resized = hash_size"
    and "\<forall>row \<in> set resized. length row = hash_size + 1"
    and "r < hash_size" and "c < hash_size"
  shows "(bit (frame_ahash w fr hash_size) (hash_size * hash_size - 1 - (r * hash_size + c))
            \<longleftrightarrow> resized ! r ! (c + 1) > resized ! r ! c)
       \<and> 0 \<le> frame_ahash w fr hash_size
       \<and> frame_ahash w fr hash_size < 2 ^ (hash_size * hash_size)"
proof -
  let ?diff = "map row_diff resized"
  let ?bits = "concat ?diff"
  have rows: "\<forall>d \<in> set ?diff. length d = hash_size"
    using assms(3) by (simp add: length_row_diff)
  have len: "length ?bits = hash_size * hash_size"
    using length_concat_uniform [OF rows] assms(2) by simp
  have pos: "r * hash_size + c < hash_size * hash_size"
  proof -
    have "r * hash_size + c < r * hash_size + hash_size" using assms(5) by simp
    also have "\<dots> = Suc r * hash_size" by simp
    also have "\<dots> \<le> hash_size * hash_size"
      using assms(4) by (metis Suc_leI mult_le_mono1)
    finally show ?thesis .
  qed
  have "?bits ! (r * hash_size + c) = ?diff ! r ! c"
    using nth_concat_uniform [OF rows, of r c] assms(2,4,5) by simp
  also have "\<dots> = row_diff (resized ! r) ! c"
    using assms(2,4) by simp
  also have "\<dots> = (resized ! r ! Suc c > resized ! r ! c)"
    using assms(2,3,4,5) by (simp add: nth_row_diff)
  finally have bit_rc: "?bits ! (r * hash_size + c) = (resized ! r ! (c + 1) > resized ! r ! c)"
    by simp
  have val: "frame_ahash w fr hash_size = pack_bits ?bits"
    using assms(1) by (simp add: frame_ahash_eq)
  have "bit (pack_bits ?bits) (hash_size * hash_size - 1 - (r * hash_size + c))
        \<longleftrightarrow> ?bits ! (r * hash_size + c)"
    unfolding bit_pack_bits len using pos by auto
  then show ?thesis
    unfolding val using bit_rc pack_bits_range [of ?bits] len by simp
qed

lemma demo_resized:
  "resize demo_world (cvtColor demo_world gradient_frame) (2 + 1) 2 = [[9, 5, 1], [9, 5, 1]]"
  by (simp add: demo_world_def gradient_frame_def)

theorem frame_ahash_bits_witness:
  "\<not> bit (frame_ahash demo_world gradient_frame 2) 3 \<and> frame_ahash demo_world gradient_frame 2 < 16"
proof -
  have shape: "length [[9, 5, 1], [9, 5, 1 :: nat]] = 2"
    "\<forall>row \<in> set [[9, 5, 1], [9, 5, 1 :: nat]]. length row = 2 + 1"
    by simp_all
  have idx: "(0::nat) < 2" by simp
  show ?thesis
    using frame_ahash_bits [OF demo_resized [symmetric] shape idx idx]
    by simp
qed

text \<open>
  C1, counterexample. The claim as the specification words it (bit 1 exactly when the left pixel is strictly
  brighter than the right one) fails on the frame whose intensity falls from left to
  right: its first pixel pair has left 9 and right 5, and its bit is 0.
\<close>

theorem frame_ahash_left_greater_counterexample:
  "resize demo_world (cvtColor demo_world gradient_frame) (2 + 1) 2 ! 0 ! 0
     > resize demo_world (cvtColor demo_world gradient_frame) (2 + 1) 2 ! 0 ! 1
   \<and> \<not> bit (frame_ahash demo_world gradient_frame 2) (2 * 2 - 1 - (0 * 2 + 0))
   \<and> frame_ahash demo_world gradient_frame 2 = 0"
proof -
  have "frame_ahash demo_world gradient_frame 2 = 0"
    by (simp add: frame_ahash_def demo_world_def gradient_frame_def row_diff_def pack_bits_def)
  then show ?thesis
    by (simp add: demo_world_def gradient_frame_def)
qed

subsection \<open>Frame sampling\<close>

text \<open>
  C6. For a total frame count \<open>T > 0\<close> and a sample count \<open>S > 0\<close> the sampled frame
  indices are exactly the \<open>S\<close> multiples \<open>i * max 1 (T div S)\<close> for \<open>0 \<le> i < S\<close>, in
  increasing order; when the frame count is zero (or negative, as an unknown count is
  reported) no index is sampled, and the video hash is computed from the frames read at
  exactly these indices.
\<close>

theorem sample_indices_spec:
  "(0 < T \<and> 0 < S \<longrightarrow>
      set (sample_indices T S) = {i * max 1 (T div S) | i. 0 \<le> i \<and> i < S}
      \<and> sample_indices T S = map (\<lambda>i. i * max 1 (T div S)) [0..S - 1]
      \<and> int (length (sample_indices T S)) = S)
   \<and> (T \<le> 0 \<longrightarrow> sample_indices T S = [])
   \<and> (cv2_imported w \<and> cap_isOpened w p \<longrightarrow>
        video_perceptual_hash w p S =
          (let hashes = frame_hashes w p (sample_indices (cap_frame_count w p) S)
           in if hashes = [] then None else Some (combine_hashes_hash_majority hashes 64)))"
proof -
  have "set (sample_indices T S) = {i * max 1 (T div S) | i. 0 \<le> i \<and> i < S}"
    if "0 < T" "0 < S"
    using that by (auto simp add: sample_indices_def Let_def)
  moreover have "sample_indices T S = map (\<lambda>i. i * max 1 (T div S)) [0..S - 1]"
    if "0 < T" "0 < S"
    using that by (simp add: sample_indices_def Let_def)
  moreover have "int (length (sample_indices T S)) = S" if "0 < T" "0 < S"
    using that by (simp add: sample_indices_def Let_def)
  moreover have "sample_indices T S = []" if "T \<le> 0"
    using that by (simp add: sample_indices_def)
  moreover have "video_perceptual_hash w p S =
          (let hashes = frame_hashes w p (sample_indices (cap_frame_count w p) S)
           in if hashes = [] then None else Some (combine_hashes_hash_majority hashes 64))"
    if "cv2_imported w \<and> cap_isOpened w p"
    using that by (simp add: video_perceptual_hash_def Let_def)
  ultimately show ?thesis by blast
qed

theorem sample_indices_spec_witness:
  "sample_indices 100 12 = [0, 8, 16, 24, 32, 40, 48, 56, 64, 72, 80, 88]
   \<and> set (sample_indices 5 3) = {0, 1, 2}
   \<and> sample_indices 0 12 = []
   \<and> video_perceptual_hash demo_world ''/m/d.mp4'' 12 = None"
proof -
  have up12: "[0..11] = [0, 1, 2, 3, 4, 5, 6, 7, 8, 9, 10, 11 :: int]"
    by (simp add: upto_rec1)
  have up3: "[0..2] = [0, 1, 2 :: int]"
    by (simp add: upto_rec1)
  have a: "sample_indices 100 12 = [0, 8, 16, 24, 32, 40, 48, 56, 64, 72, 80, 88]"
    using sample_indices_spec [of 100 12 demo_world "''/m/d.mp4''"] by (simp add: up12)
  have b: "set (sample_indices 5 3) = {0, 1, 2}"
    using sample_indices_spec [of 5 3 demo_world "''/m/d.mp4''"] by (simp add: up3)
  have c: "sample_indices 0 12 = []"
    using sample_indices_spec [of 0 12 demo_world "''/m/d.mp4''"] by simp
  have d: "video_perceptual_hash demo_world ''/m/d.mp4'' 12 = None"
    using sample_indices_spec [of 0 12 demo_world "''/m/d.mp4''"]
    by (simp add: demo_world_def)
  show ?thesis using a b c d by simp
qed

subsection \<open>The dispatcher\<close>

lemma video_not_audio: "ext \<in> VIDEO_EXTS \<Longrightarrow> ext \<notin> AUDIO_EXTS"
  by (auto simp add: VIDEO_EXTS_def AUDIO_EXTS_def)

lemma sha256_update_loop_append: "sha256_update_loop h remaining = h @ remaining"
proof (induction h remaining rule: sha256_update_loop.induct)
  case (1 h remaining)
  show ?case
  proof (cases "take (1024 * 1024) remaining = []")
    case True
    then have "remaining = []" by simp
    then show ?thesis by (simp add: sha256_update_loop.simps)
  next
    case False
    have "sha256_update_loop h remaining =
          sha256_update_loop (h @ take (1024 * 1024) remaining) (drop (1024 * 1024) remaining)"
      using False by (subst sha256_update_loop.simps) (simp add: Let_def)
    also have "\<dots> = (h @ take (1024 * 1024) remaining) @ drop (1024 * 1024) remaining"
      using False by (rule "1.IH" [OF refl])
    finally show ?thesis by simp
  qed
qed

lemma sha256_file_readable:
  "read_bytes w p = Some content \<Longrightarrow> sha256_file w p = Inr (sha256_hexdigest w content)"
  by (simp add: sha256_file_def sha256_update_loop_append)

lemma sha256_file_unreadable:
  "read_bytes w p = None \<Longrightarrow> sha256_file w p = Inl (OSError p)"
  by (simp add: sha256_file_def)

lemma frame_hashes_none:
  "\<forall>idx \<in> set indices. cap_read w p idx = None \<Longrightarrow> frame_hashes w p indices = []"
  by (induction indices) simp_all

lemma video_hash_none:
  assumes "cap_frame_count w p = 0 \<or>
           (\<forall>idx \<in> set (sample_indices (cap_frame_count w p) sample_frames). cap_read w p idx = None)"
  shows "video_perceptual_hash w p sample_frames = None"
proof -
  have "frame_hashes w p (sample_indices (cap_frame_count w p) sample_frames) = []"
    using assms
  proof
    assume "cap_frame_count w p = 0"
    then show ?thesis by (simp add: sample_indices_def)
  next
    assume "\<forall>idx \<in> set (sample_indices (cap_frame_count w p) sample_frames). cap_read w p idx = None"
    then show ?thesis by (rule frame_hashes_none)
  qed
  then show ?thesis
    by (simp add: video_perceptual_hash_def Let_def)
qed

text \<open>
  C5. For a file whose extension is an audio extension, with the audio kind enabled and
  \<open>run_fpcalc\<close> returning a non-empty fingerprint, the result has kind \<open>audio\<close> and the
  fingerprint as its key, whatever else the enabled kinds hold and whatever the video
  collaborator would do.
\<close>

theorem fingerprint_file_audio:
  assumes "str_lower (suffix p) \<in> AUDIO_EXTS"
    and "''audio'' \<in> set kinds"
    and "run_fpcalc w p 120 = Inr (Some fp)"
    and "fp \<noteq> []"
  shows "fingerprint_file w p kinds sample_frames =
           Inr \<lparr>kind = ''audio'', key = fp, detail = ''fpcalc:'' @ str_nat (length fp) @ ''chars''\<rparr>"
  using assms by (simp add: fingerprint_file_def Let_def)

lemma demo_suffix_mp3: "str_lower (suffix ''/m/a.mp3'') = ''.mp3''"
  by (simp add: suffix_def path_name_def str_lower_def char_lower_def Let_def)

lemma demo_fpcalc: "run_fpcalc demo_world ''/m/a.mp3'' 120 = Inr (Some ''AQAAfp'')"
  by (simp add: run_fpcalc_def demo_world_def startswith_def strip_def is_space_def)

theorem fingerprint_file_audio_witness:
  "fingerprint_file demo_world ''/m/a.mp3'' [''audio'', ''video''] 12 =
     Inr \<lparr>kind = ''audio'', key = ''AQAAfp'', detail = ''fpcalc:6chars''\<rparr>"
proof -
  have ext: "str_lower (suffix ''/m/a.mp3'') \<in> AUDIO_EXTS"
    unfolding demo_suffix_mp3 by (simp add: AUDIO_EXTS_def)
  have kinds: "''audio'' \<in> set [''audio'', ''video'']" by simp
  have ne: "''AQAAfp'' \<noteq> []" by simp
  have six: "str_nat (length ''AQAAfp'') = ''6''"
    by (simp add: str_nat_def digits.simps digit_char_def)
  show ?thesis
    using fingerprint_file_audio [OF ext kinds demo_fpcalc ne, of 12] unfolding six by simp
qed

text \<open>
  C9. For a file with a video extension for which the decoder reports a frame count of 0,
  or for which no sampled frame decodes, the video strategy yields no fingerprint and the
  dispatcher returns the fallback result: kind \<open>fallback\<close>, key the hex digest of the
  file's content (the file being readable).
\<close>

theorem fingerprint_file_video_no_frames:
  assumes "str_lower (suffix p) \<in> VIDEO_EXTS"
    and "cap_frame_count w p = 0 \<or>
         (\<forall>idx \<in> set (sample_indices (cap_frame_count w p) sample_frames). cap_read w p idx = None)"
    and "read_bytes w p = Some content"
  shows "video_perceptual_hash w p sample_frames = None
       \<and> fingerprint_file w p kinds sample_frames =
           Inr \<lparr>kind = ''fallback'', key = sha256_hexdigest w content,
                detail = ''sha256:'' @ take 12 (sha256_hexdigest w content) @ ''...''\<rparr>"
proof -
  have none: "video_perceptual_hash w p sample_frames = None"
    using assms(2) by (rule video_hash_none)
  have not_audio: "str_lower (suffix p) \<notin> AUDIO_EXTS"
    using assms(1) by (rule video_not_audio)
  have "fingerprint_file w p kinds sample_frames = fallback_fingerprint w p"
    using none not_audio by (simp add: fingerprint_file_def Let_def video_fingerprint_def)
  then show ?thesis
    using none sha256_file_readable [OF assms(3)] by (simp add: fallback_fingerprint_def)
qed

lemma demo_suffix_mp4: "str_lower (suffix ''/m/d.mp4'') = ''.mp4''"
  by (simp add: suffix_def path_name_def str_lower_def char_lower_def Let_def)

theorem fingerprint_file_video_no_frames_witness:
  "video_perceptual_hash demo_world ''/m/d.mp4'' 12 = None
   \<and> fingerprint_file demo_world ''/m/d.mp4'' [''audio'', ''video''] 12 =
       Inr \<lparr>kind = ''fallback'',
            key = ''ca978112ca1bbdcafac231b39a23dc4da786eff8147c4e72b9807785afee48bb'',
            detail = ''sha256:ca978112ca1b...''\<rparr>"
proof -
  have ext: "str_lower (suffix ''/m/d.mp4'') \<in> VIDEO_EXTS"
    unfolding demo_suffix_mp4 by (simp add: VIDEO_EXTS_def)
  have frames: "cap_frame_count demo_world ''/m/d.mp4'' = 0 \<or>
      (\<forall>idx \<in> set (sample_indices (cap_frame_count demo_world ''/m/d.mp4'') 12).
          cap_read demo_world ''/m/d.mp4'' idx = None)"
    by (simp add: demo_world_def)
  have content: "read_bytes demo_world ''/m/d.mp4'' = Some [97]"
    by (simp add: demo_world_def)
  have digest: "sha256_hexdigest demo_world [97] =
      ''ca978112ca1bbdcafac231b39a23dc4da786eff8147c4e72b9807785afee48bb''"
    by (simp add: demo_world_def)
  show ?thesis
    using fingerprint_file_video_no_frames [OF ext frames content, of "[''audio'', ''video'']"]
    by (simp add: digest)
qed

subsection \<open>The file finder\<close>

text \<open>
  C10. The set of allowed extensions is empty exactly when neither kind is enabled and no
  custom extension is given; then the finder filters on nothing but \<open>is_file\<close>: it returns
  every regular file the traversal of the root yields, in the traversal's order.
\<close>

theorem find_files_no_filter:
  "(allowed_exts_of kinds custom_exts = {} \<longleftrightarrow>
      ''audio'' \<notin> set kinds \<and> ''video'' \<notin> set kinds \<and> custom_exts = [])
   \<and> (allowed_exts_of kinds custom_exts = {} \<longrightarrow>
        find_files w root_dir recurse kinds custom_exts
          = filter (is_file w) (iter_files w root_dir recurse))"
  by (auto simp add: allowed_exts_of_def find_files_def AUDIO_EXTS_def VIDEO_EXTS_def)

theorem find_files_no_filter_witness:
  "find_files demo_world ''/m'' True [''image''] [] =
     [''/m/a.mp3'', ''/m/b.bin'', ''/m/c.bin'', ''/m/d.mp4'', ''/m/e.bin'', ''/m/f.bin'',
      ''/m/gone.dat'']"
proof -
  have "allowed_exts_of [''image''] [] = {}"
    using find_files_no_filter [of "[''image'']" "[]" demo_world "''/m''" True] by simp
  then show ?thesis
    using find_files_no_filter [of "[''image'']" "[]" demo_world "''/m''" True]
    by (simp add: demo_world_def)
qed

subsection \<open>Grouping\<close>

lemma dict_append_keys:
  "map fst (dict_append d k v) = (if k \<in> fst ` set d then map fst d else map fst d @ [k])"
  by (induction d k v rule: dict_append.induct) auto

lemma dict_append_distinct:
  "distinct (map fst d) \<Longrightarrow> distinct (map fst (dict_append d k v))"
  by (simp add: dict_append_keys)

lemma map_of_dict_append:
  "map_of (dict_append d k v) =
     (map_of d)(k \<mapsto> (case map_of d k of None \<Rightarrow> [v] | Some vs \<Rightarrow> vs @ [v]))"
  by (induction d k v rule: dict_append.induct) (auto simp add: fun_eq_iff)

lemma fingerprinted_Cons:
  "fingerprinted w kinds sf (p # files) =
     (case fingerprint_file w p kinds sf of
        Inl e \<Rightarrow> fingerprinted w kinds sf files
      | Inr fp \<Rightarrow> (p, fp) # fingerprinted w kinds sf files)"
  by (simp add: fingerprinted_def List.map_filter_simps split: sum.splits)

lemma fingerprinted_Nil: "fingerprinted w kinds sf [] = []"
  by (simp add: fingerprinted_def List.map_filter_simps)

text \<open>What the loop has built when it ends without an exception.\<close>

lemma fingerprint_loop_Inr:
  assumes "fingerprint_loop w kinds sf d files = Inr d'"
  shows "(\<forall>p \<in> set files. \<exists>fp. fingerprint_file w p kinds sf = Inr fp)
       \<and> (distinct (map fst d) \<longrightarrow> distinct (map fst d'))
       \<and> (\<forall>k. map_of d' k =
            (let new = filter (\<lambda>x. key (snd x) = k) (fingerprinted w kinds sf files)
             in case map_of d k of
                  None \<Rightarrow> if new = [] then None else Some new
                | Some vs \<Rightarrow> Some (vs @ new)))"
  using assms
proof (induction files arbitrary: d)
  case Nil
  then have same: "d' = d" by simp
  show ?case
    unfolding same fingerprinted_Nil by (simp split: option.split)
next
  case (Cons p files)
  from Cons.prems obtain fp where fp: "fingerprint_file w p kinds sf = Inr fp"
    and rest: "fingerprint_loop w kinds sf (dict_append d (key fp) (p, fp)) files = Inr d'"
    by (cases "fingerprint_file w p kinds sf") simp_all
  let ?d1 = "dict_append d (key fp) (p, fp)"
  let ?new = "\<lambda>k. filter (\<lambda>x. key (snd x) = k) (fingerprinted w kinds sf files)"
  note IH = Cons.IH [OF rest]
  note IH1 = IH [THEN conjunct1]
  note IH2 = IH [THEN conjunct2, THEN conjunct1]
  note IH3 = IH [THEN conjunct2, THEN conjunct2, unfolded Let_def, THEN spec]
  have all: "\<forall>q \<in> set (p # files). \<exists>fp. fingerprint_file w q kinds sf = Inr fp"
    using IH1 fp by simp
  have dist: "distinct (map fst d) \<longrightarrow> distinct (map fst d')"
    using IH2 by (simp add: dict_append_distinct)
  have pairs: "fingerprinted w kinds sf (p # files) = (p, fp) # fingerprinted w kinds sf files"
    by (simp add: fingerprinted_Cons fp)
  have groups: "map_of d' k =
            (let new = filter (\<lambda>x. key (snd x) = k) (fingerprinted w kinds sf (p # files))
             in case map_of d k of
                  None \<Rightarrow> if new = [] then None else Some new
                | Some vs \<Rightarrow> Some (vs @ new))" for k
  proof (cases "k = key fp")
    case True
    have "map_of ?d1 k = Some (case map_of d k of None \<Rightarrow> [(p, fp)] | Some vs \<Rightarrow> vs @ [(p, fp)])"
      using True by (simp add: map_of_dict_append)
    then have "map_of d' k =
        Some ((case map_of d k of None \<Rightarrow> [(p, fp)] | Some vs \<Rightarrow> vs @ [(p, fp)]) @ ?new k)"
      using IH3 by simp
    then show ?thesis
      unfolding pairs Let_def using True by (cases "map_of d k") simp_all
  next
    case False
    have "map_of ?d1 k = map_of d k"
      using False by (simp add: map_of_dict_append)
    then have "map_of d' k =
            (case map_of d k of
               None \<Rightarrow> if ?new k = [] then None else Some (?new k)
             | Some vs \<Rightarrow> Some (vs @ ?new k))"
      using IH3 by simp
    then show ?thesis
      unfolding pairs Let_def using False by (cases "map_of d k") simp_all
  qed
  show ?case
    by (intro conjI allI all dist groups)
qed

lemma fingerprint_loop_total:
  "\<forall>p \<in> set files. \<exists>fp. fingerprint_file w p kinds sf = Inr fp \<Longrightarrow>
   \<exists>d'. fingerprint_loop w kinds sf d files = Inr d'"
  by (induction files arbitrary: d) auto

lemma fingerprint_loop_abort:
  "\<forall>q \<in> set pre. \<exists>fp. fingerprint_file w q kinds sf = Inr fp \<Longrightarrow>
   fingerprint_file w p kinds sf = Inl e \<Longrightarrow>
   fingerprint_loop w kinds sf d (pre @ p # post) = Inl e"
  by (induction pre arbitrary: d) auto

lemma length_filter_fingerprinted:
  "length (filter (\<lambda>x. key (snd x) = k) (fingerprinted w kinds sf files))
   = length (filter (\<lambda>p. file_key w kinds sf p = Some k) files)"
  by (induction files)
     (auto simp add: fingerprinted_Nil fingerprinted_Cons file_key_def split: sum.splits)

text \<open>The groups \<open>find_duplicates\<close> returns: for every key, the files with that key.\<close>

lemma find_duplicates_groups:
  assumes "find_duplicates w files kinds sf = Inr dupes"
  shows "distinct (map fst dupes)"
    and "(k, vs) \<in> set dupes \<longleftrightarrow>
           vs = filter (\<lambda>x. key (snd x) = k) (fingerprinted w kinds sf files) \<and> 1 < length vs"
proof -
  from assms obtain groups where loop: "fingerprint_loop w kinds sf [] files = Inr groups"
    and dupes: "dupes = filter (\<lambda>(k, v). length v > 1) groups"
    by (auto simp add: find_duplicates_def split: sum.splits)
  have dist: "distinct (map fst groups)"
    using fingerprint_loop_Inr [OF loop] by simp
  have lookup: "map_of groups k =
      (let new = filter (\<lambda>x. key (snd x) = k) (fingerprinted w kinds sf files)
       in if new = [] then None else Some new)" for k
    using fingerprint_loop_Inr [OF loop] by simp
  show "distinct (map fst dupes)"
    unfolding dupes using dist by (simp add: distinct_map_filter)
  have "(k, vs) \<in> set groups \<longleftrightarrow> map_of groups k = Some vs"
    using dist by simp
  then show "(k, vs) \<in> set dupes \<longleftrightarrow>
           vs = filter (\<lambda>x. key (snd x) = k) (fingerprinted w kinds sf files) \<and> 1 < length vs"
    unfolding dupes lookup by (auto simp add: Let_def)
qed

text \<open>
  C8. When \<open>find_duplicates\<close> returns, every group it returns has at least two members,
  and a key that exactly one file of the input has is no key of the returned groups.
\<close>

theorem find_duplicates_minimal:
  assumes "find_duplicates w files kinds sf = Inr dupes"
  shows "(\<forall>(k, vs) \<in> set dupes. 2 \<le> length vs)
       \<and> (\<forall>k. length (filter (\<lambda>p. file_key w kinds sf p = Some k) files) = 1
             \<longrightarrow> k \<notin> fst ` set dupes)"
proof -
  have big: "2 \<le> length vs" if "(k, vs) \<in> set dupes" for k vs
  proof -
    have "1 < length vs"
      using that find_duplicates_groups(2) [OF assms, of k vs] by blast
    then show ?thesis by simp
  qed
  have "k \<notin> fst ` set dupes"
    if one: "length (filter (\<lambda>p. file_key w kinds sf p = Some k) files) = 1" for k
  proof
    assume "k \<in> fst ` set dupes"
    then obtain vs where "(k, vs) \<in> set dupes" by auto
    then have "1 < length (filter (\<lambda>x. key (snd x) = k) (fingerprinted w kinds sf files))"
      using find_duplicates_groups(2) [OF assms, of k vs] by blast
    then show False
      using one unfolding length_filter_fingerprinted by simp
  qed
  then have single: "\<forall>k. length (filter (\<lambda>p. file_key w kinds sf p = Some k) files) = 1
             \<longrightarrow> k \<notin> fst ` set dupes"
    by simp
  have "\<forall>(k, vs) \<in> set dupes. 2 \<le> length vs"
    using big by auto
  then show ?thesis using single by (rule conjI)
qed

text \<open>
  C2 (as the code has it). \<open>find_duplicates\<close> handles no exception: when the files before
  \<open>p\<close> have fingerprints, \<open>p\<close> reaches the fallback hash and cannot be read, the error of
  \<open>p\<close> leaves \<open>find_duplicates\<close>, whatever files follow, and no group is returned.
\<close>

theorem find_duplicates_unreadable_aborts:
  assumes "\<forall>q \<in> set pre. \<exists>fp. fingerprint_file w q kinds sf = Inr fp"
    and "fingerprint_file w p kinds sf = fallback_fingerprint w p"
    and "read_bytes w p = None"
  shows "find_duplicates w (pre @ p # post) kinds sf = Inl (OSError p)"
proof -
  have "fingerprint_file w p kinds sf = Inl (OSError p)"
    using assms(2,3) by (simp add: fallback_fingerprint_def sha256_file_unreadable)
  then have "fingerprint_loop w kinds sf [] (pre @ p # post) = Inl (OSError p)"
    using assms(1) by (rule fingerprint_loop_abort [rotated])
  then show ?thesis by (simp add: find_duplicates_def)
qed

subsection \<open>The example world, evaluated\<close>

lemma demo_suffix_bin:
  "str_lower (suffix ''/m/b.bin'') = ''.bin''" "str_lower (suffix ''/m/c.bin'') = ''.bin''"
  "str_lower (suffix ''/m/e.bin'') = ''.bin''" "str_lower (suffix ''/m/f.bin'') = ''.bin''"
  "str_lower (suffix ''/m/gone.dat'') = ''.dat''"
  by (simp_all add: suffix_def path_name_def str_lower_def char_lower_def Let_def)

lemma unknown_ext_fallback:
  "str_lower (suffix p) \<notin> AUDIO_EXTS \<Longrightarrow> str_lower (suffix p) \<notin> VIDEO_EXTS \<Longrightarrow>
   fingerprint_file w p kinds sf = fallback_fingerprint w p"
  by (simp add: fingerprint_file_def Let_def video_fingerprint_def)

lemma demo_ext_unknown:
  "''.bin'' \<notin> AUDIO_EXTS" "''.bin'' \<notin> VIDEO_EXTS" "''.dat'' \<notin> AUDIO_EXTS" "''.dat'' \<notin> VIDEO_EXTS"
  by (simp_all add: AUDIO_EXTS_def VIDEO_EXTS_def)

lemma demo_fallback_a:
  "p = ''/m/b.bin'' \<or> p = ''/m/c.bin'' \<or> p = ''/m/d.mp4'' \<Longrightarrow>
   fallback_fingerprint demo_world p =
     Inr \<lparr>kind = ''fallback'',
          key = ''ca978112ca1bbdcafac231b39a23dc4da786eff8147c4e72b9807785afee48bb'',
          detail = ''sha256:ca978112ca1b...''\<rparr>"
proof -
  assume p: "p = ''/m/b.bin'' \<or> p = ''/m/c.bin'' \<or> p = ''/m/d.mp4''"
  then have "read_bytes demo_world p = Some [97]"
    by (auto simp add: demo_world_def)
  then have "sha256_file demo_world p = Inr (sha256_hexdigest demo_world [97])"
    by (rule sha256_file_readable)
  moreover have "sha256_hexdigest demo_world [97] =
      ''ca978112ca1bbdcafac231b39a23dc4da786eff8147c4e72b9807785afee48bb''"
    by (simp add: demo_world_def)
  ultimately show ?thesis
    by (simp add: fallback_fingerprint_def)
qed

lemma demo_fallback_empty:
  "p = ''/m/e.bin'' \<or> p = ''/m/f.bin'' \<Longrightarrow>
   fallback_fingerprint demo_world p =
     Inr \<lparr>kind = ''fallback'',
          key = ''e3b0c44298fc1c149afbf4c8996fb92427ae41e4649b934ca495991b7852b855'',
          detail = ''sha256:e3b0c44298fc...''\<rparr>"
proof -
  assume p: "p = ''/m/e.bin'' \<or> p = ''/m/f.bin''"
  then have "read_bytes demo_world p = Some []"
    by (auto simp add: demo_world_def)
  then have "sha256_file demo_world p = Inr (sha256_hexdigest demo_world [])"
    by (rule sha256_file_readable)
  moreover have "sha256_hexdigest demo_world [] =
      ''e3b0c44298fc1c149afbf4c8996fb92427ae41e4649b934ca495991b7852b855''"
    by (simp add: demo_world_def)
  ultimately show ?thesis
    by (simp add: fallback_fingerprint_def)
qed

lemma demo_fp_b:
  "fingerprint_file demo_world ''/m/b.bin'' kinds sf =
     Inr \<lparr>kind = ''fallback'',
          key = ''ca978112ca1bbdcafac231b39a23dc4da786eff8147c4e72b9807785afee48bb'',
          detail = ''sha256:ca978112ca1b...''\<rparr>"
  by (simp add: unknown_ext_fallback demo_suffix_bin demo_ext_unknown demo_fallback_a)

lemma demo_fp_c:
  "fingerprint_file demo_world ''/m/c.bin'' kinds sf =
     Inr \<lparr>kind = ''fallback'',
          key = ''ca978112ca1bbdcafac231b39a23dc4da786eff8147c4e72b9807785afee48bb'',
          detail = ''sha256:ca978112ca1b...''\<rparr>"
  by (simp add: unknown_ext_fallback demo_suffix_bin demo_ext_unknown demo_fallback_a)

lemma demo_fp_e:
  "fingerprint_file demo_world ''/m/e.bin'' kinds sf =
     Inr \<lparr>kind = ''fallback'',
          key = ''e3b0c44298fc1c149afbf4c8996fb92427ae41e4649b934ca495991b7852b855'',
          detail = ''sha256:e3b0c44298fc...''\<rparr>"
  by (simp add: unknown_ext_fallback demo_suffix_bin demo_ext_unknown demo_fallback_empty)

lemma demo_fp_f:
  "fingerprint_file demo_world ''/m/f.bin'' kinds sf =
     Inr \<lparr>kind = ''fallback'',
          key = ''e3b0c44298fc1c149afbf4c8996fb92427ae41e4649b934ca495991b7852b855'',
          detail = ''sha256:e3b0c44298fc...''\<rparr>"
  by (simp add: unknown_ext_fallback demo_suffix_bin demo_ext_unknown demo_fallback_empty)

lemma demo_fp_gone:
  "fingerprint_file demo_world ''/m/gone.dat'' kinds sf = fallback_fingerprint demo_world ''/m/gone.dat''"
  by (simp add: unknown_ext_fallback demo_suffix_bin demo_ext_unknown)

lemma demo_gone_unreadable: "read_bytes demo_world ''/m/gone.dat'' = None"
  by (simp add: demo_world_def)

lemma demo_dupes_bc:
  "find_duplicates demo_world [''/m/b.bin'', ''/m/c.bin''] kinds sf =
     Inr [(''ca978112ca1bbdcafac231b39a23dc4da786eff8147c4e72b9807785afee48bb'',
           [(''/m/b.bin'',
             \<lparr>kind = ''fallback'',
              key = ''ca978112ca1bbdcafac231b39a23dc4da786eff8147c4e72b9807785afee48bb'',
              detail = ''sha256:ca978112ca1b...''\<rparr>),
            (''/m/c.bin'',
             \<lparr>kind = ''fallback'',
              key = ''ca978112ca1bbdcafac231b39a23dc4da786eff8147c4e72b9807785afee48bb'',
              detail = ''sha256:ca978112ca1b...''\<rparr>)])]"
  by (simp add: find_duplicates_def demo_fp_b demo_fp_c)

theorem find_duplicates_unreadable_aborts_witness:
  "find_duplicates demo_world [''/m/b.bin'', ''/m/gone.dat'', ''/m/c.bin''] [''audio'', ''video''] 12
     = Inl (OSError ''/m/gone.dat'')"
proof -
  have pre: "\<forall>q \<in> set [''/m/b.bin'']. \<exists>fp. fingerprint_file demo_world q [''audio'', ''video''] 12 = Inr fp"
    by (simp add: demo_fp_b)
  show ?thesis
    using find_duplicates_unreadable_aborts [OF pre demo_fp_gone demo_gone_unreadable, of "[''/m/c.bin'']"]
    by simp
qed

text \<open>
  C2, counterexample. The claim as the specification words it fails: with the unreadable file first in the
  batch, \<open>find_duplicates\<close> ends with the error and returns no group, although the two
  remaining files are duplicates of each other and are grouped when fingerprinted alone.
\<close>

theorem find_duplicates_isolation_counterexample:
  "find_duplicates demo_world [''/m/gone.dat'', ''/m/b.bin'', ''/m/c.bin''] [''audio'', ''video''] 12
     = Inl (OSError ''/m/gone.dat'')
   \<and> find_duplicates demo_world [''/m/b.bin'', ''/m/c.bin''] [''audio'', ''video''] 12
     = Inr [(''ca978112ca1bbdcafac231b39a23dc4da786eff8147c4e72b9807785afee48bb'',
           [(''/m/b.bin'',
             \<lparr>kind = ''fallback'',
              key = ''ca978112ca1bbdcafac231b39a23dc4da786eff8147c4e72b9807785afee48bb'',
              detail = ''sha256:ca978112ca1b...''\<rparr>),
            (''/m/c.bin'',
             \<lparr>kind = ''fallback'',
              key = ''ca978112ca1bbdcafac231b39a23dc4da786eff8147c4e72b9807785afee48bb'',
              detail = ''sha256:ca978112ca1b...''\<rparr>)])]"
proof -
  have "fingerprint_file demo_world ''/m/gone.dat'' [''audio'', ''video''] 12 = Inl (OSError ''/m/gone.dat'')"
    by (simp add: demo_fp_gone fallback_fingerprint_def sha256_file_unreadable demo_gone_unreadable)
  then have "find_duplicates demo_world [''/m/gone.dat'', ''/m/b.bin'', ''/m/c.bin''] [''audio'', ''video''] 12
     = Inl (OSError ''/m/gone.dat'')"
    by (simp add: find_duplicates_def)
  then show ?thesis
    using demo_dupes_bc by simp
qed

lemma demo_dupes_bce:
  "find_duplicates demo_world [''/m/b.bin'', ''/m/c.bin'', ''/m/e.bin''] kinds sf =
     Inr [(''ca978112ca1bbdcafac231b39a23dc4da786eff8147c4e72b9807785afee48bb'',
           [(''/m/b.bin'',
             \<lparr>kind = ''fallback'',
              key = ''ca978112ca1bbdcafac231b39a23dc4da786eff8147c4e72b9807785afee48bb'',
              detail = ''sha256:ca978112ca1b...''\<rparr>),
            (''/m/c.bin'',
             \<lparr>kind = ''fallback'',
              key = ''ca978112ca1bbdcafac231b39a23dc4da786eff8147c4e72b9807785afee48bb'',
              detail = ''sha256:ca978112ca1b...''\<rparr>)])]"
  by (simp add: find_duplicates_def demo_fp_b demo_fp_c demo_fp_e)

theorem find_duplicates_minimal_witness:
  "length (filter (\<lambda>p. file_key demo_world [''audio'', ''video''] 12 p
                      = Some ''e3b0c44298fc1c149afbf4c8996fb92427ae41e4649b934ca495991b7852b855'')
             [''/m/b.bin'', ''/m/c.bin'', ''/m/e.bin'']) = 1
   \<and> ''e3b0c44298fc1c149afbf4c8996fb92427ae41e4649b934ca495991b7852b855''
       \<notin> fst ` set (projr (find_duplicates demo_world [''/m/b.bin'', ''/m/c.bin'', ''/m/e.bin'']
                               [''audio'', ''video''] 12))
   \<and> map (\<lambda>(k, vs). length vs)
         (projr (find_duplicates demo_world [''/m/b.bin'', ''/m/c.bin'', ''/m/e.bin'']
                   [''audio'', ''video''] 12)) = [2]"
proof -
  have one: "length (filter (\<lambda>p. file_key demo_world [''audio'', ''video''] 12 p
                      = Some ''e3b0c44298fc1c149afbf4c8996fb92427ae41e4649b934ca495991b7852b855'')
             [''/m/b.bin'', ''/m/c.bin'', ''/m/e.bin'']) = 1"
    by (simp add: file_key_def demo_fp_b demo_fp_c demo_fp_e)
  note dupes = demo_dupes_bce [of "[''audio'', ''video'']" 12]
  show ?thesis
    using find_duplicates_minimal [OF dupes] one
    by (simp add: dupes)
qed

subsection \<open>The two renderings of the report\<close>

lemma demo_kinds: "map str_lower (split_list ''audio,video'') = [''audio'', ''video'']"
  by (simp add: split_list_def strip_def is_space_def str_lower_def char_lower_def)

lemma demo_custom_exts: "split_list ''bin'' = [''bin'']"
  by (simp add: split_list_def strip_def is_space_def)

lemma demo_allowed:
  "allowed_exts_of [''audio'', ''video''] [''bin''] = AUDIO_EXTS \<union> VIDEO_EXTS \<union> {''.bin''}"
  by (simp add: allowed_exts_of_def normalize_ext_def startswith_def str_lower_def char_lower_def)

lemma demo_suffix_sub: "str_lower (suffix ''/m/sub'') = []"
  by (simp add: suffix_def path_name_def str_lower_def Let_def)

lemma demo_ext_known:
  "''.mp3'' \<in> AUDIO_EXTS" "''.mp4'' \<in> VIDEO_EXTS" "''.mp4'' \<notin> AUDIO_EXTS"
  by (simp_all add: AUDIO_EXTS_def VIDEO_EXTS_def)

lemma demo_is_file: "is_file demo_world p \<longleftrightarrow> p \<noteq> ''/m/sub''"
  by (simp add: demo_world_def)

lemma demo_files:
  "find_files demo_world ''/m'' True [''audio'', ''video''] [''bin''] =
     [''/m/a.mp3'', ''/m/b.bin'', ''/m/c.bin'', ''/m/d.mp4'', ''/m/e.bin'', ''/m/f.bin'']"
proof -
  have "iter_files demo_world ''/m'' True =
      [''/m/a.mp3'', ''/m/b.bin'', ''/m/c.bin'', ''/m/d.mp4'',
       ''/m/e.bin'', ''/m/f.bin'', ''/m/gone.dat'', ''/m/sub'']"
    by (simp add: demo_world_def)
  then show ?thesis
    unfolding find_files_def Let_def demo_allowed
    by (simp add: demo_suffix_bin demo_suffix_mp3 demo_suffix_mp4 demo_suffix_sub
        demo_ext_known demo_ext_unknown demo_is_file)
qed


lemma demo_files_rev:
  "find_files demo_world_rev ''/m'' True [''audio'', ''video''] [''bin''] =
     [''/m/f.bin'', ''/m/e.bin'', ''/m/d.mp4'', ''/m/c.bin'', ''/m/b.bin'', ''/m/a.mp3'']"
proof -
  have "iter_files demo_world_rev ''/m'' True =
      [''/m/sub'', ''/m/gone.dat'', ''/m/f.bin'', ''/m/e.bin'',
       ''/m/d.mp4'', ''/m/c.bin'', ''/m/b.bin'', ''/m/a.mp3'']"
    by (simp add: demo_world_rev_def demo_world_def)
  moreover have "is_file demo_world_rev p \<longleftrightarrow> p \<noteq> ''/m/sub''" for p
    by (simp add: demo_world_rev_def demo_world_def)
  ultimately show ?thesis
    unfolding find_files_def Let_def demo_allowed
    by (simp add: demo_suffix_bin demo_suffix_mp3 demo_suffix_mp4 demo_suffix_sub
        demo_ext_known demo_ext_unknown)
qed

text \<open>Fingerprinting reads nothing of the world that the order of traversal changes.\<close>

lemma demo_world_rev_fields:
  "which_fpcalc demo_world_rev = which_fpcalc demo_world"
  "subprocess_run demo_world_rev = subprocess_run demo_world"
  "cv2_imported demo_world_rev = cv2_imported demo_world"
  "cap_isOpened demo_world_rev = cap_isOpened demo_world"
  "cap_frame_count demo_world_rev = cap_frame_count demo_world"
  "cap_read demo_world_rev = cap_read demo_world"
  "cvtColor demo_world_rev = cvtColor demo_world"
  "resize demo_world_rev = resize demo_world"
  "read_bytes demo_world_rev = read_bytes demo_world"
  "sha256_hexdigest demo_world_rev = sha256_hexdigest demo_world"
  by (simp_all add: demo_world_rev_def)

lemma frame_ahash_rev: "frame_ahash demo_world_rev fr n = frame_ahash demo_world fr n"
  unfolding frame_ahash_def demo_world_rev_fields by (rule refl)

lemma frame_hashes_rev:
  "frame_hashes demo_world_rev p indices = frame_hashes demo_world p indices"
  by (induction indices)
     (simp_all add: demo_world_rev_fields frame_ahash_rev split: option.split)

lemma video_perceptual_hash_rev:
  "video_perceptual_hash demo_world_rev p sf = video_perceptual_hash demo_world p sf"
  unfolding video_perceptual_hash_def frame_hashes_rev demo_world_rev_fields by (rule refl)

lemma run_fpcalc_rev: "run_fpcalc demo_world_rev p len = run_fpcalc demo_world p len"
  unfolding run_fpcalc_def demo_world_rev_fields by (rule refl)

lemma fallback_fingerprint_rev:
  "fallback_fingerprint demo_world_rev p = fallback_fingerprint demo_world p"
  unfolding fallback_fingerprint_def sha256_file_def demo_world_rev_fields by (rule refl)

lemma video_fingerprint_rev:
  "video_fingerprint demo_world_rev p v sf = video_fingerprint demo_world p v sf"
  unfolding video_fingerprint_def video_perceptual_hash_rev fallback_fingerprint_rev
  by (rule refl)

lemma fingerprint_file_rev:
  "fingerprint_file demo_world_rev p kinds sf = fingerprint_file demo_world p kinds sf"
  unfolding fingerprint_file_def run_fpcalc_rev video_fingerprint_rev by (rule refl)

lemma demo_fp_a:
  "fingerprint_file demo_world ''/m/a.mp3'' [''audio'', ''video''] sf =
     Inr \<lparr>kind = ''audio'', key = ''AQAAfp'', detail = ''fpcalc:6chars''\<rparr>"
proof -
  have six: "str_nat (length ''AQAAfp'') = ''6''"
    by (simp add: str_nat_def digits.simps digit_char_def)
  have "fingerprint_file demo_world ''/m/a.mp3'' [''audio'', ''video''] sf =
     Inr \<lparr>kind = ''audio'', key = ''AQAAfp'',
          detail = ''fpcalc:'' @ str_nat (length ''AQAAfp'') @ ''chars''\<rparr>"
    by (simp add: fingerprint_file_def Let_def demo_suffix_mp3 demo_ext_known demo_fpcalc)
  then show ?thesis
    unfolding six by simp
qed

lemma demo_fp_d:
  "fingerprint_file demo_world ''/m/d.mp4'' kinds sf =
     Inr \<lparr>kind = ''fallback'',
          key = ''ca978112ca1bbdcafac231b39a23dc4da786eff8147c4e72b9807785afee48bb'',
          detail = ''sha256:ca978112ca1b...''\<rparr>"
proof -
  have "cap_frame_count demo_world ''/m/d.mp4'' = 0"
    by (simp add: demo_world_def)
  then have "video_perceptual_hash demo_world ''/m/d.mp4'' sf = None"
    by (simp add: video_hash_none)
  then have "fingerprint_file demo_world ''/m/d.mp4'' kinds sf =
             fallback_fingerprint demo_world ''/m/d.mp4''"
    by (simp add: fingerprint_file_def Let_def video_fingerprint_def demo_suffix_mp4 demo_ext_known)
  then show ?thesis
    by (simp add: demo_fallback_a)
qed


lemma fingerprint_loop_rev:
  "fingerprint_loop demo_world_rev kinds sf d files = fingerprint_loop demo_world kinds sf d files"
  by (induction files arbitrary: d) (simp_all add: fingerprint_file_rev split: sum.split)

lemma find_duplicates_rev:
  "find_duplicates demo_world_rev files kinds sf = find_duplicates demo_world files kinds sf"
  by (simp add: find_duplicates_def fingerprint_loop_rev)

lemma demo_dupes_forward:
  "find_duplicates demo_world
     [''/m/a.mp3'', ''/m/b.bin'', ''/m/c.bin'', ''/m/d.mp4'', ''/m/e.bin'', ''/m/f.bin'']
     [''audio'', ''video''] 12 =
   Inr [(''ca978112ca1bbdcafac231b39a23dc4da786eff8147c4e72b9807785afee48bb'',
         [(''/m/b.bin'', \<lparr>kind = ''fallback'', key = ''ca978112ca1bbdcafac231b39a23dc4da786eff8147c4e72b9807785afee48bb'', detail = ''sha256:ca978112ca1b...''\<rparr>),
          (''/m/c.bin'', \<lparr>kind = ''fallback'', key = ''ca978112ca1bbdcafac231b39a23dc4da786eff8147c4e72b9807785afee48bb'', detail = ''sha256:ca978112ca1b...''\<rparr>),
          (''/m/d.mp4'', \<lparr>kind = ''fallback'', key = ''ca978112ca1bbdcafac231b39a23dc4da786eff8147c4e72b9807785afee48bb'', detail = ''sha256:ca978112ca1b...''\<rparr>)]),
        (''e3b0c44298fc1c149afbf4c8996fb92427ae41e4649b934ca495991b7852b855'',
         [(''/m/e.bin'', \<lparr>kind = ''fallback'', key = ''e3b0c44298fc1c149afbf4c8996fb92427ae41e4649b934ca495991b7852b855'', detail = ''sha256:e3b0c44298fc...''\<rparr>),
          (''/m/f.bin'', \<lparr>kind = ''fallback'', key = ''e3b0c44298fc1c149afbf4c8996fb92427ae41e4649b934ca495991b7852b855'', detail = ''sha256:e3b0c44298fc...''\<rparr>)])]"
  by (simp add: find_duplicates_def demo_fp_a demo_fp_b demo_fp_c demo_fp_d demo_fp_e demo_fp_f)

lemma demo_dupes_backward:
  "find_duplicates demo_world
     [''/m/f.bin'', ''/m/e.bin'', ''/m/d.mp4'', ''/m/c.bin'', ''/m/b.bin'', ''/m/a.mp3'']
     [''audio'', ''video''] 12 =
   Inr [(''e3b0c44298fc1c149afbf4c8996fb92427ae41e4649b934ca495991b7852b855'',
         [(''/m/f.bin'', \<lparr>kind = ''fallback'', key = ''e3b0c44298fc1c149afbf4c8996fb92427ae41e4649b934ca495991b7852b855'', detail = ''sha256:e3b0c44298fc...''\<rparr>),
          (''/m/e.bin'', \<lparr>kind = ''fallback'', key = ''e3b0c44298fc1c149afbf4c8996fb92427ae41e4649b934ca495991b7852b855'', detail = ''sha256:e3b0c44298fc...''\<rparr>)]),
        (''ca978112ca1bbdcafac231b39a23dc4da786eff8147c4e72b9807785afee48bb'',
         [(''/m/d.mp4'', \<lparr>kind = ''fallback'', key = ''ca978112ca1bbdcafac231b39a23dc4da786eff8147c4e72b9807785afee48bb'', detail = ''sha256:ca978112ca1b...''\<rparr>),
          (''/m/c.bin'', \<lparr>kind = ''fallback'', key = ''ca978112ca1bbdcafac231b39a23dc4da786eff8147c4e72b9807785afee48bb'', detail = ''sha256:ca978112ca1b...''\<rparr>),
          (''/m/b.bin'', \<lparr>kind = ''fallback'', key = ''ca978112ca1bbdcafac231b39a23dc4da786eff8147c4e72b9807785afee48bb'', detail = ''sha256:ca978112ca1b...''\<rparr>)])]"
  by (simp add: find_duplicates_def demo_fp_a demo_fp_b demo_fp_c demo_fp_d demo_fp_e demo_fp_f)

lemma str_nat_small:
  "str_nat (Suc (Suc 0)) = ''2''" "str_nat (Suc (Suc (Suc 0))) = ''3''"
  by (simp_all add: str_nat_def digits.simps digit_char_def)

lemma demo_report_forward:
  "format_report [(''ca978112ca1bbdcafac231b39a23dc4da786eff8147c4e72b9807785afee48bb'',
         [(''/m/b.bin'', \<lparr>kind = ''fallback'', key = ''ca978112ca1bbdcafac231b39a23dc4da786eff8147c4e72b9807785afee48bb'', detail = ''sha256:ca978112ca1b...''\<rparr>),
          (''/m/c.bin'', \<lparr>kind = ''fallback'', key = ''ca978112ca1bbdcafac231b39a23dc4da786eff8147c4e72b9807785afee48bb'', detail = ''sha256:ca978112ca1b...''\<rparr>),
          (''/m/d.mp4'', \<lparr>kind = ''fallback'', key = ''ca978112ca1bbdcafac231b39a23dc4da786eff8147c4e72b9807785afee48bb'', detail = ''sha256:ca978112ca1b...''\<rparr>)]),
        (''e3b0c44298fc1c149afbf4c8996fb92427ae41e4649b934ca495991b7852b855'',
         [(''/m/e.bin'', \<lparr>kind = ''fallback'', key = ''e3b0c44298fc1c149afbf4c8996fb92427ae41e4649b934ca495991b7852b855'', detail = ''sha256:e3b0c44298fc...''\<rparr>),
          (''/m/f.bin'', \<lparr>kind = ''fallback'', key = ''e3b0c44298fc1c149afbf4c8996fb92427ae41e4649b934ca495991b7852b855'', detail = ''sha256:e3b0c44298fc...''\<rparr>)])] =
   join [CHR 0x0A]
     [''hash=ca978112ca1bbdcafac231b39a23dc4da786eff8147c4e72b9807785afee48bb (x3)'',
          ''  - /m/b.bin [fallback sha256:ca978112ca1b...]'',
          ''  - /m/c.bin [fallback sha256:ca978112ca1b...]'',
          ''  - /m/d.mp4 [fallback sha256:ca978112ca1b...]'',
          ''hash=e3b0c44298fc1c149afbf4c8996fb92427ae41e4649b934ca495991b7852b855 (x2)'',
          ''  - /m/e.bin [fallback sha256:e3b0c44298fc...]'',
          ''  - /m/f.bin [fallback sha256:e3b0c44298fc...]'']"
  by (simp add: format_report_def group_lines_def item_line_def str_nat_small)

lemma demo_report_backward:
  "format_report [(''e3b0c44298fc1c149afbf4c8996fb92427ae41e4649b934ca495991b7852b855'',
         [(''/m/f.bin'', \<lparr>kind = ''fallback'', key = ''e3b0c44298fc1c149afbf4c8996fb92427ae41e4649b934ca495991b7852b855'', detail = ''sha256:e3b0c44298fc...''\<rparr>),
          (''/m/e.bin'', \<lparr>kind = ''fallback'', key = ''e3b0c44298fc1c149afbf4c8996fb92427ae41e4649b934ca495991b7852b855'', detail = ''sha256:e3b0c44298fc...''\<rparr>)]),
        (''ca978112ca1bbdcafac231b39a23dc4da786eff8147c4e72b9807785afee48bb'',
         [(''/m/d.mp4'', \<lparr>kind = ''fallback'', key = ''ca978112ca1bbdcafac231b39a23dc4da786eff8147c4e72b9807785afee48bb'', detail = ''sha256:ca978112ca1b...''\<rparr>),
          (''/m/c.bin'', \<lparr>kind = ''fallback'', key = ''ca978112ca1bbdcafac231b39a23dc4da786eff8147c4e72b9807785afee48bb'', detail = ''sha256:ca978112ca1b...''\<rparr>),
          (''/m/b.bin'', \<lparr>kind = ''fallback'', key = ''ca978112ca1bbdcafac231b39a23dc4da786eff8147c4e72b9807785afee48bb'', detail = ''sha256:ca978112ca1b...''\<rparr>)])] =
   join [CHR 0x0A]
     [''hash=ca978112ca1bbdcafac231b39a23dc4da786eff8147c4e72b9807785afee48bb (x3)'',
          ''  - /m/b.bin [fallback sha256:ca978112ca1b...]'',
          ''  - /m/c.bin [fallback sha256:ca978112ca1b...]'',
          ''  - /m/d.mp4 [fallback sha256:ca978112ca1b...]'',
          ''hash=e3b0c44298fc1c149afbf4c8996fb92427ae41e4649b934ca495991b7852b855 (x2)'',
          ''  - /m/e.bin [fallback sha256:e3b0c44298fc...]'',
          ''  - /m/f.bin [fallback sha256:e3b0c44298fc...]'']"
  by (simp add: format_report_def group_lines_def item_line_def str_nat_small)


lemma demo_main:
  "cv2_imported w \<Longrightarrow>
   main w (demo_args as_json) =
     (let files = find_files w ''/m'' True [''audio'', ''video''] [''bin'']
      in if files = [] then Inr NoMatchingFiles
         else (case find_duplicates w files [''audio'', ''video''] 12 of
                 Inl e \<Rightarrow> Inl e
               | Inr dupes \<Rightarrow>
                   if as_json
                   then Inr (JsonReport \<lparr>payload_root = ''/m'', payload_recurse = True,
                                         payload_duplicates = json_duplicates dupes\<rparr>)
                   else if dupes \<noteq> [] then Inr (TextReport (format_report dupes))
                   else Inr NoDuplicates))"
  by (simp add: main_def demo_args_def demo_kinds demo_custom_exts Let_def
      cong: sum.case_cong if_cong)

lemma demo_cv2: "cv2_imported demo_world" "cv2_imported demo_world_rev"
  by (simp_all add: demo_world_rev_def demo_world_def)

text \<open>
  C3, on the example directory. With \<open>--json\<close>, the groups and the entries of each group
  come out in the order in which the traversal met them: traversing the same directory in
  the opposite order gives another document, and in it neither the groups are sorted by
  key nor the entries of a group by path. Without \<open>--json\<close> both traversals print the
  same sorted report.
\<close>

theorem json_report_follows_traversal_order:
  "main demo_world (demo_args True) =
     Inr (JsonReport \<lparr>payload_root = ''/m'', payload_recurse = True,
          payload_duplicates =
            [JsonGroup ''ca978112ca1bbdcafac231b39a23dc4da786eff8147c4e72b9807785afee48bb''
              [JsonItem ''/m/b.bin'' ''fallback'' ''sha256:ca978112ca1b...'',
               JsonItem ''/m/c.bin'' ''fallback'' ''sha256:ca978112ca1b...'',
               JsonItem ''/m/d.mp4'' ''fallback'' ''sha256:ca978112ca1b...''],
             JsonGroup ''e3b0c44298fc1c149afbf4c8996fb92427ae41e4649b934ca495991b7852b855''
              [JsonItem ''/m/e.bin'' ''fallback'' ''sha256:e3b0c44298fc...'',
               JsonItem ''/m/f.bin'' ''fallback'' ''sha256:e3b0c44298fc...'']]\<rparr>)
   \<and> main demo_world_rev (demo_args True) =
     Inr (JsonReport \<lparr>payload_root = ''/m'', payload_recurse = True,
          payload_duplicates =
            [JsonGroup ''e3b0c44298fc1c149afbf4c8996fb92427ae41e4649b934ca495991b7852b855''
              [JsonItem ''/m/f.bin'' ''fallback'' ''sha256:e3b0c44298fc...'',
               JsonItem ''/m/e.bin'' ''fallback'' ''sha256:e3b0c44298fc...''],
             JsonGroup ''ca978112ca1bbdcafac231b39a23dc4da786eff8147c4e72b9807785afee48bb''
              [JsonItem ''/m/d.mp4'' ''fallback'' ''sha256:ca978112ca1b...'',
               JsonItem ''/m/c.bin'' ''fallback'' ''sha256:ca978112ca1b...'',
               JsonItem ''/m/b.bin'' ''fallback'' ''sha256:ca978112ca1b...'']]\<rparr>)
   \<and> main demo_world (demo_args False) =
     Inr (TextReport (join [CHR 0x0A]
            [''hash=ca978112ca1bbdcafac231b39a23dc4da786eff8147c4e72b9807785afee48bb (x3)'',
              ''  - /m/b.bin [fallback sha256:ca978112ca1b...]'',
              ''  - /m/c.bin [fallback sha256:ca978112ca1b...]'',
              ''  - /m/d.mp4 [fallback sha256:ca978112ca1b...]'',
              ''hash=e3b0c44298fc1c149afbf4c8996fb92427ae41e4649b934ca495991b7852b855 (x2)'',
              ''  - /m/e.bin [fallback sha256:e3b0c44298fc...]'',
              ''  - /m/f.bin [fallback sha256:e3b0c44298fc...]'']))
   \<and> main demo_world_rev (demo_args False) =
     Inr (TextReport (join [CHR 0x0A]
            [''hash=ca978112ca1bbdcafac231b39a23dc4da786eff8147c4e72b9807785afee48bb (x3)'',
              ''  - /m/b.bin [fallback sha256:ca978112ca1b...]'',
              ''  - /m/c.bin [fallback sha256:ca978112ca1b...]'',
              ''  - /m/d.mp4 [fallback sha256:ca978112ca1b...]'',
              ''hash=e3b0c44298fc1c149afbf4c8996fb92427ae41e4649b934ca495991b7852b855 (x2)'',
              ''  - /m/e.bin [fallback sha256:e3b0c44298fc...]'',
              ''  - /m/f.bin [fallback sha256:e3b0c44298fc...]'']))"
proof -
  have forward: "main demo_world (demo_args as_json) =
      (case find_duplicates demo_world
              [''/m/a.mp3'', ''/m/b.bin'', ''/m/c.bin'', ''/m/d.mp4'', ''/m/e.bin'', ''/m/f.bin'']
              [''audio'', ''video''] 12 of
         Inl e \<Rightarrow> Inl e
       | Inr dupes \<Rightarrow>
           if as_json
           then Inr (JsonReport \<lparr>payload_root = ''/m'', payload_recurse = True,
                                 payload_duplicates = json_duplicates dupes\<rparr>)
           else if dupes \<noteq> [] then Inr (TextReport (format_report dupes))
           else Inr NoDuplicates)" for as_json
    unfolding demo_main [OF demo_cv2(1)] demo_files Let_def by simp
  have backward: "main demo_world_rev (demo_args as_json) =
      (case find_duplicates demo_world
              [''/m/f.bin'', ''/m/e.bin'', ''/m/d.mp4'', ''/m/c.bin'', ''/m/b.bin'', ''/m/a.mp3'']
              [''audio'', ''video''] 12 of
         Inl e \<Rightarrow> Inl e
       | Inr dupes \<Rightarrow>
           if as_json
           then Inr (JsonReport \<lparr>payload_root = ''/m'', payload_recurse = True,
                                 payload_duplicates = json_duplicates dupes\<rparr>)
           else if dupes \<noteq> [] then Inr (TextReport (format_report dupes))
           else Inr NoDuplicates)" for as_json
    unfolding demo_main [OF demo_cv2(2)] demo_files_rev find_duplicates_rev Let_def by simp
  have j1: "main demo_world (demo_args True) =
     Inr (JsonReport \<lparr>payload_root = ''/m'', payload_recurse = True,
          payload_duplicates =
            [JsonGroup ''ca978112ca1bbdcafac231b39a23dc4da786eff8147c4e72b9807785afee48bb''
              [JsonItem ''/m/b.bin'' ''fallback'' ''sha256:ca978112ca1b...'',
               JsonItem ''/m/c.bin'' ''fallback'' ''sha256:ca978112ca1b...'',
               JsonItem ''/m/d.mp4'' ''fallback'' ''sha256:ca978112ca1b...''],
             JsonGroup ''e3b0c44298fc1c149afbf4c8996fb92427ae41e4649b934ca495991b7852b855''
              [JsonItem ''/m/e.bin'' ''fallback'' ''sha256:e3b0c44298fc...'',
               JsonItem ''/m/f.bin'' ''fallback'' ''sha256:e3b0c44298fc...'']]\<rparr>)"
    unfolding forward demo_dupes_forward by (simp add: json_duplicates_def)
  have j2: "main demo_world_rev (demo_args True) =
     Inr (JsonReport \<lparr>payload_root = ''/m'', payload_recurse = True,
          payload_duplicates =
            [JsonGroup ''e3b0c44298fc1c149afbf4c8996fb92427ae41e4649b934ca495991b7852b855''
              [JsonItem ''/m/f.bin'' ''fallback'' ''sha256:e3b0c44298fc...'',
               JsonItem ''/m/e.bin'' ''fallback'' ''sha256:e3b0c44298fc...''],
             JsonGroup ''ca978112ca1bbdcafac231b39a23dc4da786eff8147c4e72b9807785afee48bb''
              [JsonItem ''/m/d.mp4'' ''fallback'' ''sha256:ca978112ca1b...'',
               JsonItem ''/m/c.bin'' ''fallback'' ''sha256:ca978112ca1b...'',
               JsonItem ''/m/b.bin'' ''fallback'' ''sha256:ca978112ca1b...'']]\<rparr>)"
    unfolding backward demo_dupes_backward by (simp add: json_duplicates_def)
  have t1: "main demo_world (demo_args False) =
     Inr (TextReport (join [CHR 0x0A]
            [''hash=ca978112ca1bbdcafac231b39a23dc4da786eff8147c4e72b9807785afee48bb (x3)'',
              ''  - /m/b.bin [fallback sha256:ca978112ca1b...]'',
              ''  - /m/c.bin [fallback sha256:ca978112ca1b...]'',
              ''  - /m/d.mp4 [fallback sha256:ca978112ca1b...]'',
              ''hash=e3b0c44298fc1c149afbf4c8996fb92427ae41e4649b934ca495991b7852b855 (x2)'',
              ''  - /m/e.bin [fallback sha256:e3b0c44298fc...]'',
              ''  - /m/f.bin [fallback sha256:e3b0c44298fc...]'']))"
    unfolding forward demo_dupes_forward sum.case if_False demo_report_forward by simp
  have t2: "main demo_world_rev (demo_args False) =
     Inr (TextReport (join [CHR 0x0A]
            [''hash=ca978112ca1bbdcafac231b39a23dc4da786eff8147c4e72b9807785afee48bb (x3)'',
              ''  - /m/b.bin [fallback sha256:ca978112ca1b...]'',
              ''  - /m/c.bin [fallback sha256:ca978112ca1b...]'',
              ''  - /m/d.mp4 [fallback sha256:ca978112ca1b...]'',
              ''hash=e3b0c44298fc1c149afbf4c8996fb92427ae41e4649b934ca495991b7852b855 (x2)'',
              ''  - /m/e.bin [fallback sha256:e3b0c44298fc...]'',
              ''  - /m/f.bin [fallback sha256:e3b0c44298fc...]'']))"
    unfolding backward demo_dupes_backward sum.case if_False demo_report_backward by simp
  show ?thesis
    by (intro conjI j1 j2 t1 t2)
qed

subsection \<open>The plain-text report does not depend on the order of the input\<close>

lemma fingerprinted_as_map:
  "fingerprinted w kinds sf files =
     map (\<lambda>p. (p, projr (fingerprint_file w p kinds sf)))
       (filter (\<lambda>p. \<not> isl (fingerprint_file w p kinds sf)) files)"
  by (induction files)
     (auto simp add: fingerprinted_Nil fingerprinted_Cons split: sum.splits)

lemma mset_fingerprinted:
  "mset files' = mset files \<Longrightarrow>
   mset (fingerprinted w kinds sf files') = mset (fingerprinted w kinds sf files)"
  unfolding fingerprinted_as_map by simp

lemma fst_inj_on_fingerprinted: "inj_on fst (set (filter P (fingerprinted w kinds sf files)))"
  unfolding fingerprinted_as_map by (auto simp add: inj_on_def)

lemma sort_key_cong_mset:
  assumes "mset xs = mset ys" and "inj_on f (set xs)"
  shows "sort_key f xs = sort_key f ys"
proof (rule sort_key_inj_key_eq)
  show "mset xs = mset (sort_key f ys)" using assms(1) by simp
  show "inj_on f (set xs)" by (rule assms(2))
  show "sorted (map f (sort_key f ys))" by (rule sorted_sort_key)
qed

lemma group_lines_sorted_group: "group_lines (sorted_group kv) = group_lines kv"
  by (cases kv) (simp add: group_lines_def sorted_group_def sort_key_id_if_sorted)

lemma sorted_dupes_unique:
  assumes "distinct (map fst d)" and "distinct (map fst d')"
    and "sorted_group ` set d = sorted_group ` set d'"
  shows "map sorted_group (sort_key (\<lambda>kv. fst kv) d) = map sorted_group (sort_key (\<lambda>kv. fst kv) d')"
proof -
  let ?A = "map sorted_group (sort_key (\<lambda>kv. fst kv) d)"
  let ?A' = "map sorted_group (sort_key (\<lambda>kv. fst kv) d')"
  have keys: "map fst ?A = map fst (sort_key (\<lambda>kv. fst kv) d)"
    "map fst ?A' = map fst (sort_key (\<lambda>kv. fst kv) d')"
    by (simp_all add: sorted_group_def comp_def)
  have srt: "sorted (map fst ?A)" "sorted (map fst ?A')"
    unfolding keys by (rule sorted_sort_key)+
  have "mset (map fst (sort_key (\<lambda>kv. fst kv) d)) = mset (map fst d)"
    "mset (map fst (sort_key (\<lambda>kv. fst kv) d')) = mset (map fst d')"
    by simp_all
  then have dist: "distinct (map fst ?A)" "distinct (map fst ?A')"
    unfolding keys using assms(1,2) by (metis mset_eq_imp_distinct_iff)+
  then have dA: "distinct ?A" "distinct ?A'" and inj: "inj_on fst (set ?A)"
    by (simp_all only: distinct_map)
  have "set ?A = set ?A'"
    using assms(3) by simp
  then have "mset ?A = mset ?A'"
    using dA by (simp only: set_eq_iff_mset_eq_distinct)
  then have "sort_key fst ?A = ?A'"
    using inj srt(2) by (rule sort_key_inj_key_eq)
  moreover have "sort_key fst ?A = ?A"
    using srt(1) by (rule sort_key_id_if_sorted)
  ultimately show ?thesis by simp
qed

lemma format_report_sorted_groups:
  "format_report dupes =
     join [CHR 0x0A] (concat (map group_lines (map sorted_group (sort_key (\<lambda>kv. fst kv) dupes))))"
  by (simp add: format_report_def comp_def group_lines_sorted_group)

text \<open>
  The plain-text half of C3 holds for every input: fingerprinting a permutation of the
  files succeeds as well and prints the same report, groups sorted by key and entries
  sorted by path.
\<close>

lemma format_report_permutation:
  assumes "mset files' = mset files"
    and "find_duplicates w files kinds sf = Inr dupes"
  shows "\<exists>dupes'. find_duplicates w files' kinds sf = Inr dupes'
                \<and> format_report dupes' = format_report dupes"
proof -
  let ?G = "\<lambda>fs k. filter (\<lambda>x. key (snd x) = k) (fingerprinted w kinds sf fs)"
  from assms(2) obtain groups where loop: "fingerprint_loop w kinds sf [] files = Inr groups"
    by (auto simp add: find_duplicates_def split: sum.splits)
  have "\<forall>p \<in> set files. \<exists>fp. fingerprint_file w p kinds sf = Inr fp"
    using fingerprint_loop_Inr [OF loop] by simp
  moreover have "set files' = set files"
    using assms(1) by (rule mset_eq_setD)
  ultimately have "\<forall>p \<in> set files'. \<exists>fp. fingerprint_file w p kinds sf = Inr fp"
    by simp
  then obtain groups' where "fingerprint_loop w kinds sf [] files' = Inr groups'"
    using fingerprint_loop_total [of files' w kinds sf "[]"] by auto
  then obtain dupes' where dupes': "find_duplicates w files' kinds sf = Inr dupes'"
    by (simp add: find_duplicates_def)
  have same_mset: "mset (?G files' k) = mset (?G files k)" for k
    using mset_fingerprinted [OF assms(1), of w kinds sf] by simp
  have same_len: "length (?G files' k) = length (?G files k)" for k
    using same_mset [of k] by (rule mset_eq_length)
  have same_sorted: "sort_key (\<lambda>x. fst x) (?G files' k) = sort_key (\<lambda>x. fst x) (?G files k)" for k
    using same_mset [of k] fst_inj_on_fingerprinted by (rule sort_key_cong_mset)
  have members: "kv \<in> set d \<longleftrightarrow> snd kv = ?G fs (fst kv) \<and> 1 < length (snd kv)"
    if "find_duplicates w fs kinds sf = Inr d" for fs d kv
    using find_duplicates_groups(2) [OF that, of "fst kv" "snd kv"] by simp
  have image: "sorted_group ` set d =
      {(k, sort_key (\<lambda>x. fst x) (?G fs k)) | k. 1 < length (?G fs k)}"
    if "find_duplicates w fs kinds sf = Inr d" for fs d
  proof (rule set_eqI)
    fix y
    show "y \<in> sorted_group ` set d \<longleftrightarrow>
          y \<in> {(k, sort_key (\<lambda>x. fst x) (?G fs k)) | k. 1 < length (?G fs k)}"
    proof
      assume "y \<in> sorted_group ` set d"
      then obtain kv where kv: "kv \<in> set d" and y: "y = sorted_group kv" by auto
      from kv have "snd kv = ?G fs (fst kv) \<and> 1 < length (snd kv)"
        by (rule members [OF that, of kv, THEN iffD1])
      then have grp: "snd kv = ?G fs (fst kv)" and "1 < length (snd kv)"
        by (rule conjunct1, rule conjunct2)
      then have "1 < length (?G fs (fst kv))"
        by (simp only: grp [symmetric])
      have "y = (fst kv, sort_key (\<lambda>x. fst x) (?G fs (fst kv)))"
        unfolding y sorted_group_def by (simp only: grp [symmetric])
      then show "y \<in> {(k, sort_key (\<lambda>x. fst x) (?G fs k)) | k. 1 < length (?G fs k)}"
        using \<open>1 < length (?G fs (fst kv))\<close> by blast
    next
      assume "y \<in> {(k, sort_key (\<lambda>x. fst x) (?G fs k)) | k. 1 < length (?G fs k)}"
      then obtain k where y: "y = (k, sort_key (\<lambda>x. fst x) (?G fs k))"
        and big: "1 < length (?G fs k)" by auto
      have "snd (k, ?G fs k) = ?G fs (fst (k, ?G fs k)) \<and> 1 < length (snd (k, ?G fs k))"
        using big by simp
      then have "(k, ?G fs k) \<in> set d"
        by (rule members [OF that, of "(k, ?G fs k)", THEN iffD2])
      then have "sorted_group (k, ?G fs k) \<in> sorted_group ` set d"
        by (rule imageI)
      then show "y \<in> sorted_group ` set d"
        unfolding y sorted_group_def by simp
    qed
  qed
  have "sorted_group ` set dupes' = sorted_group ` set dupes"
    unfolding image [OF dupes'] image [OF assms(2)] same_len same_sorted ..
  then have "map sorted_group (sort_key (\<lambda>kv. fst kv) dupes')
           = map sorted_group (sort_key (\<lambda>kv. fst kv) dupes)"
    using find_duplicates_groups(1) [OF dupes'] find_duplicates_groups(1) [OF assms(2)]
    by (intro sorted_dupes_unique)
  then have "format_report dupes' = format_report dupes"
    unfolding format_report_sorted_groups by simp
  then show ?thesis
    using dupes' by simp
qed

end
